theory Spec2Isabelle
  imports Complex_Main "HOL-Library.Log_Nat" "HOL-Library.Sublist"
begin

section \<open>The quiz page of Assignment 3 (static/js/quiz.js)\<close>

text \<open>
  The script keeps six module-level variables and a handful of DOM elements, and changes
  them in three event handlers (start button, option button, next button) and in the
  functions they call. The model below is one record holding the variables and the part
  of the DOM the script writes, with each handler as a function on that record.
\<close>

subsection \<open>JavaScript values used by the script\<close>

text \<open>
  Strings are lists of 8-bit code units. Exceptions are values; the message of the
  TypeError raised by a property read on \<open>undefined\<close> is chosen by the engine and
  is not modelled.
\<close>

datatype js_error = Error string | TypeError | RangeError

text \<open>\<open>xs[i]\<close>: \<open>undefined\<close> beyond the end of the array.\<close>

definition lookup :: "'a list \<Rightarrow> nat \<Rightarrow> 'a option" where
  "lookup xs i = (if i < length xs then Some (xs ! i) else None)"

text \<open>\<open>String.prototype.trim\<close> on the white space that fits in a code unit below 256.\<close>

definition is_ws :: "char \<Rightarrow> bool" where
  "is_ws c = (c \<in> set [CHR 0x09, CHR 0x0A, CHR 0x0B, CHR 0x0C, CHR 0x0D, CHR 0x20, CHR 0xA0])"

definition trim :: "string \<Rightarrow> string" where
  "trim s = rev (dropWhile is_ws (rev (dropWhile is_ws s)))"

text \<open>Decimal rendering of integers, as a template literal prints them.\<close>

definition digit_char :: "nat \<Rightarrow> char" where
  "digit_char d = ''0123456789'' ! d"

fun show_nat :: "nat \<Rightarrow> string" where
  "show_nat n = (if n < 10 then [digit_char n] else show_nat (n div 10) @ [digit_char (n mod 10)])"

declare show_nat.simps [simp del]

definition show_int :: "int \<Rightarrow> string" where
  "show_int i = (if i < 0 then CHR ''-'' # show_nat (nat (- i)) else show_nat (nat i))"

subsection \<open>Numbers\<close>

text \<open>
  A JavaScript number is an IEEE 754 binary64 value. A finite one is modelled by the
  rational it denotes; \<open>fl\<close> rounds a rational to the nearest binary64 value (53
  significant bits, ties to the even significand). The exponent range is not modelled:
  the quantities of this script are quotients and products of integers below \<open>2^53\<close>,
  far from overflow and underflow. Negative zero is not modelled (it prints as 0).
\<close>

definition expo :: "rat \<Rightarrow> int" where
  "expo x = (if 1 \<le> x then bitlen \<lfloor>x\<rfloor> - 1 else - bitlen (\<lceil>1 / x\<rceil> - 1))"

definition round_even :: "rat \<Rightarrow> int" where
  "round_even m =
     (let f = \<lfloor>m\<rfloor>; d = m - of_int f
      in if d < 1 / 2 then f else if 1 / 2 < d then f + 1 else if even f then f else f + 1)"

definition fl_pos :: "rat \<Rightarrow> rat" where
  "fl_pos x = (let u = 2 powi (expo x - 52) in of_int (round_even (x / u)) * u)"

definition fl :: "rat \<Rightarrow> rat" where
  "fl x = (if x = 0 then 0 else if 0 < x then fl_pos x else - fl_pos (- x))"

datatype jsnum = NaN | PosInf | NegInf | Fin rat

text \<open>\<open>x / y\<close> for finite \<open>x\<close> and finite \<open>y\<close> (a zero divisor is \<open>+0\<close>).\<close>

definition js_div :: "rat \<Rightarrow> rat \<Rightarrow> jsnum" where
  "js_div x y =
     (if y = 0 then (if x = 0 then NaN else if 0 < x then PosInf else NegInf)
      else Fin (fl (x / y)))"

text \<open>\<open>x * c\<close> for a finite constant \<open>c\<close>.\<close>

definition js_mul :: "jsnum \<Rightarrow> rat \<Rightarrow> jsnum" where
  "js_mul x c =
     (case x of
        NaN \<Rightarrow> NaN
      | PosInf \<Rightarrow> (if c = 0 then NaN else if 0 < c then PosInf else NegInf)
      | NegInf \<Rightarrow> (if c = 0 then NaN else if 0 < c then NegInf else PosInf)
      | Fin r \<Rightarrow> Fin (fl (r * c)))"

text \<open>\<open>Math.round\<close> of a finite number: the nearest integer, a tie going up.\<close>

definition math_round :: "rat \<Rightarrow> int" where
  "math_round x = \<lfloor>x + 1 / 2\<rfloor>"

text \<open>
  \<open>Number.prototype.toFixed(digits)\<close>: a RangeError outside 0..100; the name of a
  value that is not finite; otherwise the integer \<open>n\<close> with \<open>n / 10^digits\<close>
  nearest to the number (the larger one on a tie), printed with \<open>digits\<close> decimals.
  (From \<open>10^21\<close> on the engine switches to exponent notation, which no score reaches.)
\<close>

definition pad_zeros :: "nat \<Rightarrow> string \<Rightarrow> string" where
  "pad_zeros k s = replicate (k - length s) CHR ''0'' @ s"

definition fixed_digits :: "rat \<Rightarrow> nat \<Rightarrow> string" where
  "fixed_digits x digits =
     (let n = nat \<lfloor>x * 10 ^ digits + 1 / 2\<rfloor>
      in show_nat (n div 10 ^ digits) @
         (if digits = 0 then [] else CHR ''.'' # pad_zeros digits (show_nat (n mod 10 ^ digits))))"

definition toFixed :: "jsnum \<Rightarrow> nat \<Rightarrow> js_error + string" where
  "toFixed x digits =
     (if 100 < digits then Inl RangeError
      else case x of
             NaN \<Rightarrow> Inr ''NaN''
           | PosInf \<Rightarrow> Inr ''Infinity''
           | NegInf \<Rightarrow> Inr ''-Infinity''
           | Fin r \<Rightarrow> Inr (if r < 0 then CHR ''-'' # fixed_digits (- r) digits
                           else fixed_digits r digits))"

subsection \<open>Data\<close>

text \<open>An option and a question as the server sends them (\<open>data.questions\<close>).\<close>

record quiz_option =
  label :: string
  opt_text :: string

record question =
  q_id :: int
  q_question :: string
  q_options :: "quiz_option list"
  q_correct_label :: string
  q_explanation :: string

text \<open>The object pushed on \<open>breakdown\<close> by \<open>handleAnswer\<close>.\<close>

record answer_record =
  questionId :: int
  question :: string
  selectedLabel :: string
  correctLabel :: string
  correct :: bool
  explanation :: string

text \<open>What \<open>await fetch("/api/questions")\<close> and \<open>await res.json()\<close> give: an
  exception, or the parsed object with its \<open>status\<close>, \<open>questions\<close> and optional
  \<open>message\<close>.\<close>

datatype fetch_result =
    Rejected js_error
  | Resolved string "question list" "string option"

text \<open>An option button created by \<open>showQuestion\<close>.\<close>

record button =
  dataset_label :: string
  textContent :: string
  classList :: "string list"
  disabled :: bool

datatype feedback_text = NoFeedback | CorrectFeedback | IncorrectFeedback string

datatype areas_html = NotRendered | PerfectScore | QuestionsToReview "answer_record list"

text \<open>The JSON body posted to \<open>/api/score\<close>.\<close>

record score_post =
  p_username :: string
  p_correct :: nat
  p_total :: nat
  p_timeTaken :: int
  p_breakdown :: "answer_record list"

text \<open>
  The six global variables, then the DOM the script writes: the \<open>hidden\<close> class of the
  three screens, the text of the elements, the option buttons, and the traces of
  \<open>alert\<close>, \<open>fetch\<close> (POST) and \<open>console.error\<close>. \<open>pendingFetches\<close> counts the question
  requests that were issued and have not settled yet. Style properties are left out.
\<close>

record state =
  questions :: "question list"
  currentIndex :: nat
  score :: nat
  startTime :: "int option"
  breakdown :: "answer_record list"
  username :: string
  introHidden :: bool
  quizHidden :: bool
  resultHidden :: bool
  introError :: string
  questionText :: string
  progressText :: string
  feedback :: feedback_text
  explanationText :: string
  scoreSpan :: string
  buttons :: "button list"
  finalScore :: string
  timeTaken :: string
  areas :: areas_html
  alerts :: "js_error list"
  posted :: "score_post list"
  consoleErrors :: "js_error list"
  pendingFetches :: nat

text \<open>A function either returns or throws; the mutations made before a throw stay.\<close>

datatype outcome = Normal state | Threw js_error state

fun state_of :: "outcome \<Rightarrow> state" where
  "state_of (Normal st) = st"
| "state_of (Threw e st) = st"

fun threw :: "outcome \<Rightarrow> bool" where
  "threw (Normal st) = False"
| "threw (Threw e st) = True"

subsection \<open>The functions of the script\<close>

definition option_button :: "quiz_option \<Rightarrow> button" where
  "option_button opt =
     \<lparr>dataset_label = label opt, textContent = label opt @ '') '' @ opt_text opt,
      classList = [''option-btn''], disabled = False\<rparr>"

definition showQuestion :: "state \<Rightarrow> outcome" where
  "showQuestion st =
     (let st1 = st\<lparr>feedback := NoFeedback, explanationText := [],
                   progressText := ''Question '' @ show_nat (currentIndex st + 1) @ '' of '' @
                                   show_nat (length (questions st))\<rparr>
      in case lookup (questions st) (currentIndex st) of
           None \<Rightarrow> Threw TypeError st1
         | Some q \<Rightarrow>
             Normal (st1\<lparr>questionText := q_question q,
                         buttons := map option_button (q_options q)\<rparr>))"

text \<open>The try block of \<open>loadQuestions\<close> after the two awaits, then the function with
  its catch clause.\<close>

definition loadQuestions_try :: "state \<Rightarrow> fetch_result \<Rightarrow> int \<Rightarrow> outcome" where
  "loadQuestions_try st res now =
     (case res of
        Rejected err \<Rightarrow> Threw err st
      | Resolved status qs message \<Rightarrow>
          if status \<noteq> ''ok''
          then Threw (Error (case message of
                               None \<Rightarrow> ''Failed to load questions''
                             | Some m \<Rightarrow> if m = [] then ''Failed to load questions'' else m)) st
          else showQuestion (st\<lparr>questions := qs, currentIndex := 0, score := 0,
                                 breakdown := [], startTime := Some now,
                                 introHidden := True, quizHidden := False\<rparr>))"

definition loadQuestions :: "state \<Rightarrow> fetch_result \<Rightarrow> int \<Rightarrow> state" where
  "loadQuestions st res now =
     (case loadQuestions_try st res now of
        Normal st' \<Rightarrow> st'
      | Threw err st' \<Rightarrow> st'\<lparr>alerts := alerts st' @ [err]\<rparr>)"

text \<open>The click handler of the start button up to \<open>await loadQuestions()\<close>; \<open>v\<close>
  is the value of the name field.\<close>

definition start_btn_click :: "state \<Rightarrow> string \<Rightarrow> state" where
  "start_btn_click st v =
     (let st1 = st\<lparr>username := trim v\<rparr>
      in if username st1 = []
         then st1\<lparr>introError := ''Please enter your name to start.''\<rparr>
         else st1\<lparr>introError := [], pendingFetches := pendingFetches st1 + 1\<rparr>)"

definition add_class :: "string \<Rightarrow> button \<Rightarrow> button" where
  "add_class c b = (if c \<in> set (classList b) then b else b\<lparr>classList := classList b @ [c]\<rparr>)"

text \<open>\<open>clickedButton\<close> is given by its position among the option buttons (a position
  beyond the last one stands for an element that is not among them). The TypeError of
  \<open>q.correct_label\<close> on an undefined \<open>q\<close> comes before the first assignment.\<close>

definition handleAnswer :: "state \<Rightarrow> nat \<Rightarrow> string \<Rightarrow> outcome" where
  "handleAnswer st clickedButton selLabel =
     (case lookup (questions st) (currentIndex st) of
        None \<Rightarrow> Threw TypeError st
      | Some q \<Rightarrow>
          let is_correct = (selLabel = q_correct_label q);
              st1 = st\<lparr>breakdown := breakdown st @
                         [\<lparr>questionId = q_id q, question = q_question q,
                           selectedLabel = selLabel, correctLabel = q_correct_label q,
                           correct = is_correct, explanation = q_explanation q\<rparr>]\<rparr>;
              st2 = (if is_correct
                     then st1\<lparr>buttons := (buttons st1)[clickedButton :=
                                  add_class ''correct'' (buttons st1 ! clickedButton)],
                              score := score st1 + 1,
                              feedback := CorrectFeedback\<rparr>
                     else st1\<lparr>buttons :=
                                map (\<lambda>b. if dataset_label b = q_correct_label q
                                         then add_class ''show-correct'' b else b)
                                  ((buttons st1)[clickedButton :=
                                     add_class ''incorrect'' (buttons st1 ! clickedButton)]),
                              feedback := IncorrectFeedback (q_correct_label q)\<rparr>)
          in Normal (st2\<lparr>explanationText := ''Explanation: '' @ q_explanation q,
                         scoreSpan := show_nat (score st2),
                         buttons := map (\<lambda>b. b\<lparr>disabled := True\<rparr>) (buttons st2)\<rparr>))"

text \<open>\<open>Math.round((endTime - startTime) / 1000)\<close>; \<open>null\<close> counts as 0. The values of
  \<open>Date.now()\<close> are integers (milliseconds, about \<open>2^41\<close> today), so their difference
  is taken exactly; the division is rounded.\<close>

definition elapsedSeconds :: "int option \<Rightarrow> int \<Rightarrow> int" where
  "elapsedSeconds start endTime =
     math_round (fl (of_int (endTime - (case start of None \<Rightarrow> 0 | Some t \<Rightarrow> t)) / 1000))"

text \<open>\<open>((score / questions.length) * 100).toFixed(1)\<close>\<close>

definition percentText :: "nat \<Rightarrow> nat \<Rightarrow> js_error + string" where
  "percentText sc len = toFixed (js_mul (js_div (of_nat sc) (of_nat len)) 100) 1"

text \<open>\<open>post\<close> is the exception of the POST request, if it fails.\<close>

definition finishQuiz :: "state \<Rightarrow> int \<Rightarrow> js_error option \<Rightarrow> outcome" where
  "finishQuiz st endTime post =
     (let timeTakenSec = elapsedSeconds (startTime st) endTime;
          st1 = st\<lparr>quizHidden := True, resultHidden := False\<rparr>
      in case percentText (score st) (length (questions st)) of
           Inl err \<Rightarrow> Threw err st1
         | Inr percent \<Rightarrow>
             let missed = filter (\<lambda>b. \<not> correct b) (breakdown st);
                 st2 = st1\<lparr>finalScore := username st @ '', your final score: '' @
                                          show_nat (score st) @ ''/'' @
                                          show_nat (length (questions st)) @
                                          '' ('' @ percent @ ''%)'',
                           timeTaken := ''Time taken: '' @ show_int timeTakenSec @ '' seconds.'',
                           areas := (if length missed = 0 then PerfectScore
                                     else QuestionsToReview missed),
                           posted := posted st1 @
                             [\<lparr>p_username = username st, p_correct = score st,
                               p_total = length (questions st), p_timeTaken = timeTakenSec,
                               p_breakdown = breakdown st\<rparr>]\<rparr>
             in Normal (case post of
                          None \<Rightarrow> st2
                        | Some err \<Rightarrow> st2\<lparr>consoleErrors := consoleErrors st2 @ [err]\<rparr>))"

definition next_btn_click :: "state \<Rightarrow> int \<Rightarrow> js_error option \<Rightarrow> outcome" where
  "next_btn_click st now post =
     (if int (currentIndex st) < int (length (questions st)) - 1
      then showQuestion (st\<lparr>currentIndex := currentIndex st + 1\<rparr>)
      else finishQuiz st now post)"

subsection \<open>The page as a transition system\<close>

text \<open>
  Modelled from the spec: the HTML page is not among the sources; a session begins
  Idle, so the intro screen is shown and the quiz and result screens are hidden, all
  texts are empty and there is no option button. The six variables start with the
  values of their declarations in the script.
\<close>

definition init_state :: state where
  "init_state =
     \<lparr>questions = [], currentIndex = 0, score = 0, startTime = None, breakdown = [],
      username = [], introHidden = False, quizHidden = True, resultHidden = True,
      introError = [], questionText = [], progressText = [], feedback = NoFeedback,
      explanationText = [], scoreSpan = [], buttons = [], finalScore = [], timeTaken = [],
      areas = NotRendered, alerts = [], posted = [], consoleErrors = [],
      pendingFetches = 0\<rparr>"

text \<open>
  The events the page reacts to. A click on an option button runs \<open>handleAnswer\<close> with
  that button and its own label, and only if the button exists and is not disabled. The
  start and next buttons can be clicked at any time. An exception that leaves a handler
  is reported by the browser and the page goes on from the state it was thrown in.
\<close>

datatype event =
    StartClick string
  | QuestionsSettled fetch_result int
  | OptionClick nat
  | NextClick int "js_error option"

definition option_click :: "state \<Rightarrow> nat \<Rightarrow> outcome" where
  "option_click st i =
     (if i < length (buttons st) \<and> \<not> disabled (buttons st ! i)
      then handleAnswer st i (dataset_label (buttons st ! i))
      else Normal st)"

fun step :: "state \<Rightarrow> event \<Rightarrow> state" where
  "step st (StartClick v) = start_btn_click st v"
| "step st (QuestionsSettled res now) =
     (if pendingFetches st = 0 then st
      else loadQuestions (st\<lparr>pendingFetches := pendingFetches st - 1\<rparr>) res now)"
| "step st (OptionClick i) = state_of (option_click st i)"
| "step st (NextClick now post) = state_of (next_btn_click st now post)"

definition run :: "event list \<Rightarrow> state" where
  "run evs = foldl step init_state evs"

text \<open>
  The states of the session controller, read off the page: the result screen is shown
  once the quiz has finished; on the quiz screen a question waits for an answer until
  \<open>handleAnswer\<close> has written its feedback; on the intro screen the session is loading
  while a request is in flight.
\<close>

datatype phase = Idle | Loading | Active | Answered | Finished

definition phase_of :: "state \<Rightarrow> phase" where
  "phase_of st =
     (if \<not> resultHidden st then Finished
      else if \<not> quizHidden st then (if feedback st = NoFeedback then Active else Answered)
      else if 0 < pendingFetches st then Loading else Idle)"

text \<open>The operation \<open>start\<close> of the session controller: a click on the start button,
  then the settlement of the request for the questions.\<close>

definition start :: "state \<Rightarrow> string \<Rightarrow> fetch_result \<Rightarrow> int \<Rightarrow> state" where
  "start st v res now = step (step st (StartClick v)) (QuestionsSettled res now)"

subsection \<open>Properties of the reachable states\<close>

text \<open>What a record and the question it was made from have in common.\<close>

definition record_key :: "answer_record \<Rightarrow> int \<times> string \<times> string \<times> string" where
  "record_key r = (questionId r, question r, correctLabel r, explanation r)"

definition question_key :: "question \<Rightarrow> int \<times> string \<times> string \<times> string" where
  "question_key q = (q_id q, q_question q, q_correct_label q, q_explanation q)"

text \<open>Feedback is on the page only while the current question exists.\<close>

definition feedback_inv :: "state \<Rightarrow> bool" where
  "feedback_inv st = (feedback st = NoFeedback \<or> currentIndex st < length (questions st))"

text \<open>While there are questions, the option buttons are those of the current one.\<close>

definition buttons_inv :: "state \<Rightarrow> bool" where
  "buttons_inv st =
     (questions st = [] \<or>
      (currentIndex st < length (questions st) \<and>
       map dataset_label (buttons st) =
         map label (q_options (questions st ! currentIndex st))))"

text \<open>
  The records were made from questions up to the current one, one record for each at
  most and in their order; while a button can still be clicked, the current question
  has no record yet.
\<close>

definition answered_once :: "state \<Rightarrow> bool" where
  "answered_once st =
     (subseq (map record_key (breakdown st))
        (map question_key (take (Suc (currentIndex st)) (questions st))) \<and>
      (list_all disabled (buttons st) \<or>
       subseq (map record_key (breakdown st))
         (map question_key (take (currentIndex st) (questions st)))))"

subsection \<open>A sample session\<close>

definition sample_q1 :: question where
  "sample_q1 =
     \<lparr>q_id = 1, q_question = ''First?'',
      q_options = [\<lparr>label = ''a'', opt_text = ''yes''\<rparr>, \<lparr>label = ''b'', opt_text = ''no''\<rparr>],
      q_correct_label = ''a'', q_explanation = ''one''\<rparr>"

definition sample_q2 :: question where
  "sample_q2 =
     \<lparr>q_id = 2, q_question = ''Second?'',
      q_options = [\<lparr>label = ''a'', opt_text = ''yes''\<rparr>, \<lparr>label = ''b'', opt_text = ''no''\<rparr>],
      q_correct_label = ''b'', q_explanation = ''two''\<rparr>"

definition sample_start :: "event list" where
  "sample_start =
     [StartClick ''ann'', QuestionsSettled (Resolved ''ok'' [sample_q1, sample_q2] None) 1000]"

text \<open>Both questions answered wrongly (b, then a).\<close>

definition sample_missed :: "event list" where
  "sample_missed = sample_start @ [OptionClick 1, NextClick 2000 None, OptionClick 0]"

section \<open>Proofs\<close>

subsection \<open>What each function changes\<close>

lemma run_Nil: "run [] = init_state"
  by (simp add: run_def)

lemma run_snoc: "run (evs @ [e]) = step (run evs) e"
  by (simp add: run_def)

lemma run_invariant:
  assumes "P init_state" and "\<And>st e. P st \<Longrightarrow> P (step st e)"
  shows "P (run evs)"
proof (induction evs rule: rev_induct)
  case Nil
  show ?case using assms(1) by (simp add: run_Nil)
next
  case (snoc e evs)
  then show ?case using assms(2) by (simp add: run_snoc)
qed

lemma showQuestion_globals:
  "questions (state_of (showQuestion st)) = questions st"
  "currentIndex (state_of (showQuestion st)) = currentIndex st"
  "score (state_of (showQuestion st)) = score st"
  "startTime (state_of (showQuestion st)) = startTime st"
  "breakdown (state_of (showQuestion st)) = breakdown st"
  "username (state_of (showQuestion st)) = username st"
  by (simp_all add: showQuestion_def Let_def split: option.split)

lemma showQuestion_page:
  "introHidden (state_of (showQuestion st)) = introHidden st"
  "quizHidden (state_of (showQuestion st)) = quizHidden st"
  "resultHidden (state_of (showQuestion st)) = resultHidden st"
  "alerts (state_of (showQuestion st)) = alerts st"
  "posted (state_of (showQuestion st)) = posted st"
  "pendingFetches (state_of (showQuestion st)) = pendingFetches st"
  "feedback (state_of (showQuestion st)) = NoFeedback"
  by (simp_all add: showQuestion_def Let_def split: option.split)

lemma showQuestion_buttons:
  "lookup (questions st) (currentIndex st) = Some q \<Longrightarrow>
     \<not> threw (showQuestion st) \<and> buttons (state_of (showQuestion st)) = map option_button (q_options q)"
  by (simp add: showQuestion_def Let_def)

lemma showQuestion_undefined:
  "lookup (questions st) (currentIndex st) = None \<Longrightarrow>
     threw (showQuestion st) \<and> buttons (state_of (showQuestion st)) = buttons st"
  by (simp add: showQuestion_def Let_def)

lemma handleAnswer_undefined:
  "lookup (questions st) (currentIndex st) = None \<Longrightarrow> handleAnswer st i l = Threw TypeError st"
  by (simp add: handleAnswer_def)

lemma handleAnswer_globals:
  "questions (state_of (handleAnswer st i l)) = questions st"
  "currentIndex (state_of (handleAnswer st i l)) = currentIndex st"
  "startTime (state_of (handleAnswer st i l)) = startTime st"
  "username (state_of (handleAnswer st i l)) = username st"
  by (simp_all add: handleAnswer_def Let_def split: option.split)

lemma handleAnswer_page:
  "introHidden (state_of (handleAnswer st i l)) = introHidden st"
  "quizHidden (state_of (handleAnswer st i l)) = quizHidden st"
  "resultHidden (state_of (handleAnswer st i l)) = resultHidden st"
  "alerts (state_of (handleAnswer st i l)) = alerts st"
  "posted (state_of (handleAnswer st i l)) = posted st"
  "pendingFetches (state_of (handleAnswer st i l)) = pendingFetches st"
  by (simp_all add: handleAnswer_def Let_def split: option.split)

lemma handleAnswer_defined:
  assumes "lookup (questions st) (currentIndex st) = Some q"
  shows "\<not> threw (handleAnswer st i l)"
    and "breakdown (state_of (handleAnswer st i l)) = breakdown st @
           [\<lparr>questionId = q_id q, question = q_question q, selectedLabel = l,
             correctLabel = q_correct_label q, correct = (l = q_correct_label q),
             explanation = q_explanation q\<rparr>]"
    and "score (state_of (handleAnswer st i l)) =
           (if l = q_correct_label q then score st + 1 else score st)"
    and "feedback (state_of (handleAnswer st i l)) \<noteq> NoFeedback"
    and "\<forall>b \<in> set (buttons (state_of (handleAnswer st i l))). disabled b"
  using assms by (simp_all add: handleAnswer_def Let_def)

lemma dataset_label_add_class: "dataset_label (add_class c b) = dataset_label b"
  by (simp add: add_class_def)

lemma labels_update_add_class:
  "map dataset_label (bs[i := add_class c (bs ! i)]) = map dataset_label bs"
proof (induction bs arbitrary: i)
  case Nil
  show ?case by simp
next
  case (Cons b bs)
  show ?case
    by (cases i) (simp_all add: dataset_label_add_class Cons.IH)
qed

lemma labels_map_add_class:
  "map dataset_label (map (\<lambda>b. if P b then add_class c b else b) bs) = map dataset_label bs"
  by (induction bs) (simp_all add: dataset_label_add_class)

lemma labels_map_disable:
  "map dataset_label (map (\<lambda>b. b\<lparr>disabled := True\<rparr>) bs) = map dataset_label bs"
  by (induction bs) simp_all

lemma handleAnswer_button_labels:
  "map dataset_label (buttons (state_of (handleAnswer st i l))) = map dataset_label (buttons st)"
proof (cases "lookup (questions st) (currentIndex st)")
  case None
  then show ?thesis by (simp add: handleAnswer_def)
next
  case (Some q)
  then show ?thesis
    by (simp add: handleAnswer_def Let_def labels_update_add_class labels_map_add_class
        labels_map_disable del: map_map)
qed

lemma percentText_returns: "\<exists>p. percentText sc len = Inr p"
  by (simp add: percentText_def toFixed_def split: jsnum.split)

lemma finishQuiz_returns: "\<not> threw (finishQuiz st now post)"
proof -
  obtain p where "percentText (score st) (length (questions st)) = Inr p"
    using percentText_returns by blast
  then show ?thesis by (simp add: finishQuiz_def Let_def)
qed

lemma finishQuiz_globals:
  "questions (state_of (finishQuiz st now post)) = questions st"
  "currentIndex (state_of (finishQuiz st now post)) = currentIndex st"
  "score (state_of (finishQuiz st now post)) = score st"
  "startTime (state_of (finishQuiz st now post)) = startTime st"
  "breakdown (state_of (finishQuiz st now post)) = breakdown st"
  "username (state_of (finishQuiz st now post)) = username st"
  by (simp_all add: finishQuiz_def Let_def split: sum.split option.split)

lemma finishQuiz_page:
  "introHidden (state_of (finishQuiz st now post)) = introHidden st"
  "quizHidden (state_of (finishQuiz st now post)) = True"
  "resultHidden (state_of (finishQuiz st now post)) = False"
  "feedback (state_of (finishQuiz st now post)) = feedback st"
  "buttons (state_of (finishQuiz st now post)) = buttons st"
  "alerts (state_of (finishQuiz st now post)) = alerts st"
  "pendingFetches (state_of (finishQuiz st now post)) = pendingFetches st"
  by (simp_all add: finishQuiz_def Let_def split: sum.split option.split)

lemma start_btn_click_globals:
  "questions (start_btn_click st v) = questions st"
  "currentIndex (start_btn_click st v) = currentIndex st"
  "score (start_btn_click st v) = score st"
  "startTime (start_btn_click st v) = startTime st"
  "breakdown (start_btn_click st v) = breakdown st"
  "username (start_btn_click st v) = trim v"
  by (simp_all add: start_btn_click_def Let_def)

lemma start_btn_click_page:
  "introHidden (start_btn_click st v) = introHidden st"
  "quizHidden (start_btn_click st v) = quizHidden st"
  "resultHidden (start_btn_click st v) = resultHidden st"
  "feedback (start_btn_click st v) = feedback st"
  "buttons (start_btn_click st v) = buttons st"
  "alerts (start_btn_click st v) = alerts st"
  "posted (start_btn_click st v) = posted st"
  "pendingFetches (start_btn_click st v) = (if trim v = [] then pendingFetches st else pendingFetches st + 1)"
  by (simp_all add: start_btn_click_def Let_def)

text \<open>A request that fails: the exception it raises before anything is assigned.\<close>

lemma loadQuestions_failed:
  assumes "case res of Rejected err \<Rightarrow> True | Resolved status qs message \<Rightarrow> status \<noteq> ''ok''"
  shows "\<exists>err. loadQuestions st res now = st\<lparr>alerts := alerts st @ [err]\<rparr>"
proof (cases res)
  case (Rejected err)
  then have "loadQuestions st res now = st\<lparr>alerts := alerts st @ [err]\<rparr>"
    by (simp add: loadQuestions_def loadQuestions_try_def)
  then show ?thesis by (rule exI)
next
  case (Resolved status qs message)
  with assms have "status \<noteq> ''ok''" by simp
  then have "loadQuestions st res now = st\<lparr>alerts := alerts st @
     [Error (case message of None \<Rightarrow> ''Failed to load questions''
             | Some m \<Rightarrow> if m = [] then ''Failed to load questions'' else m)]\<rparr>"
    using Resolved by (simp add: loadQuestions_def loadQuestions_try_def)
  then show ?thesis by (rule exI)
qed

lemma loadQuestions_ok_globals:
  "questions (loadQuestions st (Resolved ''ok'' qs m) now) = qs"
  "currentIndex (loadQuestions st (Resolved ''ok'' qs m) now) = 0"
  "score (loadQuestions st (Resolved ''ok'' qs m) now) = 0"
  "startTime (loadQuestions st (Resolved ''ok'' qs m) now) = Some now"
  "breakdown (loadQuestions st (Resolved ''ok'' qs m) now) = []"
  "username (loadQuestions st (Resolved ''ok'' qs m) now) = username st"
  by (simp_all add: loadQuestions_def loadQuestions_try_def showQuestion_def Let_def
      split: option.split)

lemma loadQuestions_ok_page:
  "introHidden (loadQuestions st (Resolved ''ok'' qs m) now) = True"
  "quizHidden (loadQuestions st (Resolved ''ok'' qs m) now) = False"
  "resultHidden (loadQuestions st (Resolved ''ok'' qs m) now) = resultHidden st"
  "feedback (loadQuestions st (Resolved ''ok'' qs m) now) = NoFeedback"
  "posted (loadQuestions st (Resolved ''ok'' qs m) now) = posted st"
  "pendingFetches (loadQuestions st (Resolved ''ok'' qs m) now) = pendingFetches st"
  "buttons (loadQuestions st (Resolved ''ok'' qs m) now) =
     (case qs of [] \<Rightarrow> buttons st | q # _ \<Rightarrow> map option_button (q_options q))"
  by (simp_all add: loadQuestions_def loadQuestions_try_def showQuestion_def Let_def lookup_def
      split: option.split list.split)

text \<open>Every settled request is a failure or a success.\<close>

lemma fetch_result_cases:
  obtains (failed) "case res of Rejected err \<Rightarrow> True | Resolved status qs message \<Rightarrow> status \<noteq> ''ok''"
  | (ok) qs m where "res = Resolved ''ok'' qs m"
  by (cases res) auto

subsection \<open>Invariants\<close>

lemma step_score:
  assumes "score st = length (filter correct (breakdown st))"
  shows "score (step st e) = length (filter correct (breakdown (step st e)))"
proof (cases e)
  case (StartClick v)
  then show ?thesis using assms by (simp add: start_btn_click_globals)
next
  case (QuestionsSettled res now)
  show ?thesis
  proof (cases res rule: fetch_result_cases)
    case failed
    then obtain err where
      "loadQuestions (st\<lparr>pendingFetches := pendingFetches st - 1\<rparr>) res now =
         st\<lparr>pendingFetches := pendingFetches st - 1, alerts := alerts st @ [err]\<rparr>"
      using loadQuestions_failed [of res "st\<lparr>pendingFetches := pendingFetches st - 1\<rparr>" now]
      by auto
    then show ?thesis using assms QuestionsSettled by simp
  next
    case (ok qs m)
    then show ?thesis using assms QuestionsSettled by (simp add: loadQuestions_ok_globals)
  qed
next
  case (OptionClick i)
  show ?thesis
  proof (cases "lookup (questions st) (currentIndex st)")
    case None
    then show ?thesis using assms OptionClick
      by (simp add: option_click_def handleAnswer_undefined)
  next
    case (Some q)
    then show ?thesis using assms OptionClick
      by (simp add: option_click_def handleAnswer_defined)
  qed
next
  case (NextClick now post)
  then show ?thesis using assms
    by (simp add: next_btn_click_def showQuestion_globals finishQuiz_globals)
qed

lemma run_score: "score (run evs) = length (filter correct (breakdown (run evs)))"
  by (rule run_invariant) (simp_all add: init_state_def step_score)

lemma lookup_Some_iff: "lookup xs i = Some x \<longleftrightarrow> i < length xs \<and> xs ! i = x"
  by (auto simp: lookup_def)

lemma lookup_None_iff: "lookup xs i = None \<longleftrightarrow> length xs \<le> i"
  by (auto simp: lookup_def)

lemma option_click_cases:
  obtains (ignored) "option_click st i = Normal st"
  | (undefined) "option_click st i = Threw TypeError st"
  | (answered) q where "i < length (buttons st)" "\<not> disabled (buttons st ! i)"
      "lookup (questions st) (currentIndex st) = Some q"
      "option_click st i = handleAnswer st i (dataset_label (buttons st ! i))"
proof (cases "i < length (buttons st) \<and> \<not> disabled (buttons st ! i)")
  case False
  then have "option_click st i = Normal st" by (auto simp: option_click_def)
  then show ?thesis by (rule ignored)
next
  case True
  show ?thesis
  proof (cases "lookup (questions st) (currentIndex st)")
    case None
    with True have "option_click st i = Threw TypeError st"
      by (simp add: option_click_def handleAnswer_undefined)
    then show ?thesis by (rule undefined)
  next
    case (Some q)
    with True show ?thesis by (intro answered [of q]) (simp_all add: option_click_def)
  qed
qed

lemma next_btn_click_cases:
  obtains (advance) "Suc (currentIndex st) < length (questions st)"
      "next_btn_click st now post = showQuestion (st\<lparr>currentIndex := currentIndex st + 1\<rparr>)"
  | (finish) "length (questions st) \<le> Suc (currentIndex st)"
      "next_btn_click st now post = finishQuiz st now post"
proof (cases "int (currentIndex st) < int (length (questions st)) - 1")
  case True
  then have "Suc (currentIndex st) < length (questions st)" by linarith
  with True show ?thesis by (intro advance) (simp_all add: next_btn_click_def)
next
  case False
  then have "length (questions st) \<le> Suc (currentIndex st)" by linarith
  with False show ?thesis by (intro finish) (simp_all add: next_btn_click_def)
qed

lemma settle_cases:
  obtains (idle) "step st (QuestionsSettled res now) = st"
  | (rejected) err where "step st (QuestionsSettled res now) =
        st\<lparr>pendingFetches := pendingFetches st - 1, alerts := alerts st @ [err]\<rparr>"
  | (loaded) qs m where "res = Resolved ''ok'' qs m"
      "step st (QuestionsSettled res now) =
         loadQuestions (st\<lparr>pendingFetches := pendingFetches st - 1\<rparr>) (Resolved ''ok'' qs m) now"
proof (cases "pendingFetches st = 0")
  case True
  then have "step st (QuestionsSettled res now) = st" by simp
  then show ?thesis by (rule idle)
next
  case False
  show ?thesis
  proof (cases res rule: fetch_result_cases)
    case failed
    then obtain err where
      "loadQuestions (st\<lparr>pendingFetches := pendingFetches st - 1\<rparr>) res now =
         st\<lparr>pendingFetches := pendingFetches st - 1, alerts := alerts st @ [err]\<rparr>"
      using loadQuestions_failed [of res "st\<lparr>pendingFetches := pendingFetches st - 1\<rparr>" now]
      by auto
    with False have "step st (QuestionsSettled res now) =
        st\<lparr>pendingFetches := pendingFetches st - 1, alerts := alerts st @ [err]\<rparr>"
      by simp
    then show ?thesis by (rule rejected)
  next
    case (ok qs m)
    with False show ?thesis by (intro loaded [of qs m]) simp_all
  qed
qed

lemma step_feedback_inv:
  assumes "feedback_inv st"
  shows "feedback_inv (step st e)"
proof (cases e)
  case (StartClick v)
  then show ?thesis using assms
    by (simp add: feedback_inv_def start_btn_click_globals start_btn_click_page)
next
  case (QuestionsSettled res now)
  show ?thesis
  proof (cases rule: settle_cases [of st res now])
    case idle
    then show ?thesis using assms QuestionsSettled by simp
  next
    case (rejected err)
    then show ?thesis using assms QuestionsSettled by (simp add: feedback_inv_def)
  next
    case (loaded qs m)
    then show ?thesis using QuestionsSettled
      by (simp add: feedback_inv_def loadQuestions_ok_page)
  qed
next
  case (OptionClick i)
  show ?thesis
  proof (cases rule: option_click_cases [of st i])
    case ignored
    then show ?thesis using assms OptionClick by simp
  next
    case undefined
    then show ?thesis using assms OptionClick by simp
  next
    case (answered q)
    then show ?thesis using OptionClick
      by (simp add: feedback_inv_def handleAnswer_globals lookup_Some_iff)
  qed
next
  case (NextClick now post)
  show ?thesis
  proof (cases rule: next_btn_click_cases [of st now post])
    case advance
    then show ?thesis using NextClick by (simp add: feedback_inv_def showQuestion_page)
  next
    case finish
    then show ?thesis using assms NextClick
      by (simp add: feedback_inv_def finishQuiz_globals finishQuiz_page)
  qed
qed

lemma run_feedback_inv: "feedback_inv (run evs)"
  by (rule run_invariant) (simp_all add: step_feedback_inv, simp add: feedback_inv_def init_state_def)

lemma dataset_label_option_button: "dataset_label (option_button opt) = label opt"
  by (simp add: option_button_def)

lemma labels_option_button: "map dataset_label (map option_button os) = map label os"
  by (induction os) (simp_all add: dataset_label_option_button)

lemma step_buttons_inv:
  assumes "buttons_inv st"
  shows "buttons_inv (step st e)"
proof (cases e)
  case (StartClick v)
  then show ?thesis using assms
    by (simp add: buttons_inv_def start_btn_click_globals start_btn_click_page)
next
  case (QuestionsSettled res now)
  show ?thesis
  proof (cases rule: settle_cases [of st res now])
    case idle
    then show ?thesis using assms QuestionsSettled by simp
  next
    case (rejected err)
    then show ?thesis using assms QuestionsSettled by (simp add: buttons_inv_def)
  next
    case (loaded qs m)
    then show ?thesis using QuestionsSettled
      by (cases qs)
         (simp_all add: buttons_inv_def loadQuestions_ok_page loadQuestions_ok_globals
            dataset_label_option_button)
  qed
next
  case (OptionClick i)
  show ?thesis
  proof (cases rule: option_click_cases [of st i])
    case ignored
    then show ?thesis using assms OptionClick by simp
  next
    case undefined
    then show ?thesis using assms OptionClick by simp
  next
    case (answered q)
    then show ?thesis using assms OptionClick
      by (simp add: buttons_inv_def handleAnswer_globals handleAnswer_button_labels)
  qed
next
  case (NextClick now post)
  show ?thesis
  proof (cases rule: next_btn_click_cases [of st now post])
    case advance
    let ?st = "st\<lparr>currentIndex := currentIndex st + 1\<rparr>"
    from advance have "lookup (questions ?st) (currentIndex ?st) =
        Some (questions st ! Suc (currentIndex st))"
      by (simp add: lookup_def)
    from showQuestion_buttons [OF this] advance NextClick show ?thesis
      by (simp add: buttons_inv_def showQuestion_globals dataset_label_option_button)
  next
    case finish
    then show ?thesis using assms NextClick
      by (simp add: buttons_inv_def finishQuiz_globals finishQuiz_page)
  qed
qed

lemma run_buttons_inv: "buttons_inv (run evs)"
  by (rule run_invariant) (simp_all add: step_buttons_inv, simp add: buttons_inv_def init_state_def)

lemma subseq_take_mono:
  assumes "subseq xs (map f (take n ys))" and "n \<le> m"
  shows "subseq xs (map f (take m ys))"
proof -
  from assms(2) obtain k where m: "m = n + k" using le_Suc_ex by blast
  have "take m ys = take n ys @ take k (drop n ys)"
    unfolding m by (rule take_add)
  then show ?thesis using assms(1) by (simp add: subseq_rev_drop_many)
qed

lemma subseq_snoc_current:
  assumes "subseq ks (map f (take n qs))" and "n < length qs"
  shows "subseq (ks @ [f (qs ! n)]) (map f (take (Suc n) qs))"
proof -
  have "map f (take (Suc n) qs) = map f (take n qs) @ [f (qs ! n)]"
    using assms(2) by (simp add: take_Suc_conv_app_nth)
  moreover have "subseq (ks @ [f (qs ! n)]) (map f (take n qs) @ [f (qs ! n)])"
    using assms(1) by (intro list_emb_append_mono) simp_all
  ultimately show ?thesis by simp
qed

lemma step_answered_once:
  assumes "answered_once st"
  shows "answered_once (step st e)"
proof (cases e)
  case (StartClick v)
  then show ?thesis using assms
    by (simp add: answered_once_def start_btn_click_globals start_btn_click_page)
next
  case (QuestionsSettled res now)
  show ?thesis
  proof (cases rule: settle_cases [of st res now])
    case idle
    then show ?thesis using assms QuestionsSettled by simp
  next
    case (rejected err)
    then show ?thesis using assms QuestionsSettled by (simp add: answered_once_def)
  next
    case (loaded qs m)
    then show ?thesis using QuestionsSettled
      by (simp add: answered_once_def loadQuestions_ok_globals)
  qed
next
  case (OptionClick i)
  show ?thesis
  proof (cases rule: option_click_cases [of st i])
    case ignored
    then show ?thesis using assms OptionClick by simp
  next
    case undefined
    then show ?thesis using assms OptionClick by simp
  next
    case (answered q)
    let ?st' = "state_of (handleAnswer st i (dataset_label (buttons st ! i)))"
    from answered(1,2) have "\<not> list_all disabled (buttons st)"
      by (auto simp: list_all_length)
    with assms have emb: "subseq (map record_key (breakdown st))
        (map question_key (take (currentIndex st) (questions st)))"
      by (simp add: answered_once_def)
    from answered(3) have cur: "currentIndex st < length (questions st)"
      and q: "q = questions st ! currentIndex st"
      by (simp_all add: lookup_Some_iff)
    have "map record_key (breakdown ?st') =
        map record_key (breakdown st) @ [question_key (questions st ! currentIndex st)]"
      using answered(3) q by (simp add: handleAnswer_defined record_key_def question_key_def)
    then have "subseq (map record_key (breakdown ?st'))
        (map question_key (take (Suc (currentIndex st)) (questions st)))"
      using subseq_snoc_current [OF emb cur] by simp
    moreover have "list_all disabled (buttons ?st')"
      using handleAnswer_defined(5) [OF answered(3)] by (simp add: list_all_iff)
    ultimately show ?thesis using OptionClick answered(4)
      by (simp add: answered_once_def handleAnswer_globals)
  qed
next
  case (NextClick now post)
  show ?thesis
  proof (cases rule: next_btn_click_cases [of st now post])
    case advance
    from assms have emb: "subseq (map record_key (breakdown st))
        (map question_key (take (Suc (currentIndex st)) (questions st)))"
      by (simp add: answered_once_def)
    from subseq_take_mono [OF emb, of "Suc (Suc (currentIndex st))"] emb advance NextClick
    show ?thesis by (simp add: answered_once_def showQuestion_globals)
  next
    case finish
    then show ?thesis using assms NextClick
      by (simp add: answered_once_def finishQuiz_globals finishQuiz_page)
  qed
qed

lemma run_answered_once: "answered_once (run evs)"
  by (rule run_invariant) (simp_all add: step_answered_once, simp add: answered_once_def init_state_def)

subsection \<open>Start, and small facts used below\<close>

lemma start_eq:
  "trim v \<noteq> [] \<Longrightarrow>
   start st v res now =
     loadQuestions (st\<lparr>username := trim v, introError := []\<rparr>) res now"
  by (simp add: start_def start_btn_click_def Let_def)

lemma show_nat_digit: "n < 10 \<Longrightarrow> show_nat n = [digit_char n]"
  by (simp add: show_nat.simps)

lemma start_failed:
  assumes "case res of Rejected err \<Rightarrow> True | Resolved status qs message \<Rightarrow> status \<noteq> ''ok''"
    and "trim v \<noteq> []"
  shows "\<exists>err. start st v res now =
           st\<lparr>username := trim v, introError := [], alerts := alerts st @ [err]\<rparr>"
proof -
  let ?s = "st\<lparr>username := trim v, introError := []\<rparr>"
  from loadQuestions_failed [OF assms(1), of ?s now]
  obtain err where "loadQuestions ?s res now = ?s\<lparr>alerts := alerts ?s @ [err]\<rparr>" ..
  then have "start st v res now =
      st\<lparr>username := trim v, introError := [], alerts := alerts st @ [err]\<rparr>"
    using assms(2) by (simp add: start_eq)
  then show ?thesis by (rule exI)
qed

lemma start_ok:
  assumes "trim v \<noteq> []"
  shows "questions (start st v (Resolved ''ok'' qs m) now) = qs"
    and "currentIndex (start st v (Resolved ''ok'' qs m) now) = 0"
    and "score (start st v (Resolved ''ok'' qs m) now) = 0"
    and "breakdown (start st v (Resolved ''ok'' qs m) now) = []"
    and "startTime (start st v (Resolved ''ok'' qs m) now) = Some now"
    and "username (start st v (Resolved ''ok'' qs m) now) = trim v"
    and "introHidden (start st v (Resolved ''ok'' qs m) now) = True"
    and "quizHidden (start st v (Resolved ''ok'' qs m) now) = False"
    and "resultHidden (start st v (Resolved ''ok'' qs m) now) = resultHidden st"
    and "feedback (start st v (Resolved ''ok'' qs m) now) = NoFeedback"
  using assms by (simp_all add: start_eq loadQuestions_ok_globals loadQuestions_ok_page)

lemma subseq_distinct: "subseq xs ys \<Longrightarrow> distinct ys \<Longrightarrow> distinct xs"
  by (auto simp: subseq_conv_nths)

subsection \<open>Numbers: rounding to binary64, \<open>Math.round\<close> and \<open>toFixed\<close>\<close>

lemma expo_le:
  assumes "0 < x"
  shows "2 powi (expo x) \<le> x"
proof (cases "1 \<le> x")
  case True
  then have pos: "0 < \<lfloor>x\<rfloor>" by simp
  from bitlen_bounds [OF pos] have "2 ^ nat (bitlen \<lfloor>x\<rfloor> - 1) \<le> \<lfloor>x\<rfloor>" by simp
  then have "(of_int (2 ^ nat (bitlen \<lfloor>x\<rfloor> - 1)) :: rat) \<le> of_int \<lfloor>x\<rfloor>"
    by (simp only: of_int_le_iff)
  also have "\<dots> \<le> x" by simp
  finally have "(2::rat) ^ nat (bitlen \<lfloor>x\<rfloor> - 1) \<le> x" by simp
  moreover from pos have "0 \<le> bitlen \<lfloor>x\<rfloor> - 1" by (simp add: bitlen_alt_def)
  ultimately show ?thesis using True by (simp add: expo_def power_int_def)
next
  case False
  let ?c = "\<lceil>1 / x\<rceil>"
  from False assms have "1 < 1 / x" by simp
  then have "1 < ?c" by (simp add: less_ceiling_iff)
  then have pos: "0 < ?c - 1" by simp
  from bitlen_bounds [OF pos] have "?c - 1 < 2 ^ nat (bitlen (?c - 1))" by simp
  then have c_le: "?c \<le> 2 ^ nat (bitlen (?c - 1))" by simp
  have "1 / x \<le> of_int ?c" by (rule le_of_int_ceiling)
  also have "\<dots> \<le> of_int (2 ^ nat (bitlen (?c - 1)))"
    using c_le by (simp only: of_int_le_iff)
  also have "\<dots> = 2 ^ nat (bitlen (?c - 1))" by simp
  finally have "1 / x \<le> 2 ^ nat (bitlen (?c - 1))" .
  then have "1 / 2 ^ nat (bitlen (?c - 1)) \<le> x"
    using assms by (simp add: field_simps)
  moreover have "2 powi (- bitlen (?c - 1)) = (1::rat) / 2 ^ nat (bitlen (?c - 1))"
  proof -
    have "(2::rat) powi (bitlen (?c - 1)) = 2 ^ nat (bitlen (?c - 1))"
      using bitlen_nonneg [of "?c - 1"] by (simp add: power_int_def)
    then show ?thesis by (simp only: power_int_minus_divide)
  qed
  ultimately show ?thesis using False by (simp add: expo_def)
qed

lemma round_even_near: "\<bar>of_int (round_even m) - m\<bar> \<le> 1 / 2"
proof -
  have "of_int \<lfloor>m\<rfloor> \<le> m" "m < of_int \<lfloor>m\<rfloor> + 1" by linarith+
  then show ?thesis by (auto simp: round_even_def Let_def abs_le_iff)
qed

lemma round_even_of_int: "round_even (of_int k) = k"
  by (simp add: round_even_def)

lemma fl_pos_near:
  assumes "0 < x"
  shows "\<bar>fl_pos x - x\<bar> \<le> x / 2 ^ 53"
proof -
  define u :: rat where "u = 2 powi (expo x - 52)"
  have u_pos: "0 < u" by (simp add: u_def)
  have u_le: "u * 2 ^ 52 \<le> x"
    using expo_le [OF assms] by (simp add: u_def power_int_diff)
  have "fl_pos x - x = (of_int (round_even (x / u)) - x / u) * u"
    using u_pos by (simp add: fl_pos_def u_def [symmetric] field_simps)
  then have "\<bar>fl_pos x - x\<bar> = \<bar>of_int (round_even (x / u)) - x / u\<bar> * u"
    using u_pos by (simp add: abs_mult)
  also have "\<dots> \<le> (1 / 2) * u"
    using round_even_near [of "x / u"] u_pos by (intro mult_right_mono) simp_all
  also have "\<dots> \<le> x / 2 ^ 53"
    using u_le by (simp add: field_simps)
  finally show ?thesis .
qed

lemma fl_near: "\<bar>fl x - x\<bar> \<le> \<bar>x\<bar> / 2 ^ 53"
proof -
  consider "x = 0" | "0 < x" | "x < 0" by linarith
  then show ?thesis
  proof cases
    case 1
    then show ?thesis by (simp add: fl_def)
  next
    case 2
    then show ?thesis using fl_pos_near [of x] by (simp add: fl_def)
  next
    case 3
    then have "\<bar>fl_pos (- x) - (- x)\<bar> \<le> (- x) / 2 ^ 53"
      by (intro fl_pos_near) simp
    moreover have "\<bar>fl x - x\<bar> = \<bar>fl_pos (- x) - (- x)\<bar>"
      using 3 by (simp add: fl_def abs_minus_commute)
    ultimately show ?thesis using 3 by simp
  qed
qed

text \<open>A multiple of one half below \<open>2^52\<close> is a binary64 value.\<close>

lemma fl_pos_half:
  assumes "0 < k" and "of_int k / 2 < (2::rat) ^ 52"
  shows "fl_pos (of_int k / 2) = of_int k / 2"
proof -
  let ?x = "of_int k / 2 :: rat"
  have x_pos: "0 < ?x" using assms(1) by simp
  have "expo ?x < 52"
  proof (rule ccontr)
    assume "\<not> expo ?x < 52"
    then have "(2::rat) powi 52 \<le> 2 powi (expo ?x)"
      by (intro power_int_increasing) simp_all
    with expo_le [OF x_pos] assms(2) show False by simp
  qed
  then have n: "expo ?x - 52 = - int (Suc (nat (51 - expo ?x)))" by simp
  have u: "2 powi (expo ?x - 52) = (1::rat) / 2 ^ Suc (nat (51 - expo ?x))"
    by (simp only: n power_int_minus_divide power_int_of_nat)
  have "?x / (1 / 2 ^ Suc (nat (51 - expo ?x))) = of_int (k * 2 ^ nat (51 - expo ?x))"
    by simp
  then have r: "round_even (?x / (1 / 2 ^ Suc (nat (51 - expo ?x)))) = k * 2 ^ nat (51 - expo ?x)"
    by (simp only: round_even_of_int)
  have "fl_pos ?x = of_int (k * 2 ^ nat (51 - expo ?x)) * (1 / 2 ^ Suc (nat (51 - expo ?x)))"
    unfolding fl_pos_def Let_def u r ..
  also have "\<dots> = ?x" by simp
  finally show ?thesis .
qed

lemma fl_half:
  assumes "\<bar>of_int k / 2\<bar> < (2::rat) ^ 52"
  shows "fl (of_int k / 2) = of_int k / 2"
proof -
  consider "k = 0" | "0 < k" | "k < 0" by linarith
  then show ?thesis
  proof cases
    case 1
    then show ?thesis by (simp add: fl_def)
  next
    case 2
    then show ?thesis using assms fl_pos_half [of k] by (simp add: fl_def)
  next
    case 3
    then have "fl_pos (of_int (- k) / 2) = of_int (- k) / 2"
      using assms by (intro fl_pos_half) simp_all
    then show ?thesis using 3 by (simp add: fl_def)
  qed
qed

lemma div_1000_bounds:
  fixes d :: int
  shows "1000 * ((d + 500) div 1000) \<le> d + 500"
    and "d + 500 < 1000 * ((d + 500) div 1000) + 1000"
proof -
  have "0 \<le> (d + 500) mod 1000" "(d + 500) mod 1000 < 1000" by simp_all
  moreover have "d + 500 = 1000 * ((d + 500) div 1000) + (d + 500) mod 1000"
    by (simp only: mult_div_mod_eq)
  ultimately show "1000 * ((d + 500) div 1000) \<le> d + 500"
    "d + 500 < 1000 * ((d + 500) div 1000) + 1000"
    by linarith+
qed

lemma math_round_fl_div_1000:
  fixes d :: int
  assumes "\<bar>d\<bar> < 2 ^ 53"
  shows "math_round (fl (of_int d / 1000)) = (d + 500) div 1000"
proof -
  define x :: rat where "x = of_int d / 1000"
  define k where "k = (d + 500) div 1000"
  have k1: "1000 * k \<le> d + 500" and k2: "d + 500 < 1000 * k + 1000"
    unfolding k_def by (rule div_1000_bounds)+
  have "(of_int \<bar>d\<bar> :: rat) < of_int (2 ^ 53)"
    using assms by (simp only: of_int_less_iff)
  then have "(of_int \<bar>d\<bar> :: rat) < 2 ^ 53" by simp
  then have "(of_int \<bar>d\<bar> :: rat) / 1000 < 2 ^ 53 / 1000"
    by (rule divide_strict_right_mono) simp
  then have x_small: "\<bar>x\<bar> < 2 ^ 53 / 1000" by (simp add: x_def)
  then have "\<bar>x\<bar> / 2 ^ 53 < (2 ^ 53 / 1000) / 2 ^ 53"
    by (rule divide_strict_right_mono) simp
  then have "\<bar>x\<bar> / 2 ^ 53 < 1 / 1000" by simp
  with fl_near [of x] have near: "\<bar>fl x - x\<bar> < 1 / 1000" by (rule le_less_trans)
  have "(2::rat) ^ 53 / 1000 < 2 ^ 52" by simp
  with x_small have x_52: "\<bar>x\<bar> < 2 ^ 52" by (rule less_trans)
  have "d \<le> 1000 * k + 499" using k2 by simp
  then have "(of_int d :: rat) \<le> of_int (1000 * k + 499)"
    by (simp only: of_int_le_iff)
  then have "(of_int d :: rat) / 1000 \<le> of_int (1000 * k + 499) / 1000"
    by (rule divide_right_mono) simp
  then have x_le: "x \<le> of_int k + 499 / 1000" by (simp add: x_def add_divide_distrib)
  have upper: "fl x + 1 / 2 < of_int k + 1" using near x_le by linarith
  have lower: "of_int k \<le> fl x + 1 / 2"
  proof (cases "d = 1000 * k - 500")
    case True
    then have "(of_int d :: rat) = of_int (1000 * k - 500)" by (simp only:)
    then have half: "x = of_int (2 * k - 1) / 2" by (simp add: x_def diff_divide_distrib)
    from x_52 have "\<bar>of_int (2 * k - 1) / 2\<bar> < (2::rat) ^ 52" by (simp only: half)
    from fl_half [OF this] have "fl x = x" by (simp only: half)
    then show ?thesis by (simp add: half diff_divide_distrib)
  next
    case False
    with k1 have "1000 * k - 499 \<le> d" by simp
    then have "(of_int (1000 * k - 499) :: rat) \<le> of_int d"
      by (simp only: of_int_le_iff)
    then have "(of_int (1000 * k - 499) :: rat) / 1000 \<le> of_int d / 1000"
      by (rule divide_right_mono) simp
    then have "of_int k - 499 / 1000 \<le> x" by (simp add: x_def diff_divide_distrib)
    with near show ?thesis by linarith
  qed
  have "\<lfloor>fl x + 1 / 2\<rfloor> = k"
    using lower upper by (intro floor_unique) simp_all
  then show ?thesis by (simp add: math_round_def x_def k_def)
qed

lemma fixed_digits_one:
  "fixed_digits y 1 =
     show_nat (nat \<lfloor>y * 10 + 1 / 2\<rfloor> div 10) @ ''.'' @ show_nat (nat \<lfloor>y * 10 + 1 / 2\<rfloor> mod 10)"
  by (simp add: fixed_digits_def Let_def pad_zeros_def show_nat_digit)

lemma fl_nonneg_near:
  assumes "0 \<le> a"
  shows "0 \<le> fl a" and "fl a \<le> 2 * a" and "\<bar>fl a - a\<bar> \<le> a / 2 ^ 53"
proof -
  show e: "\<bar>fl a - a\<bar> \<le> a / 2 ^ 53" using fl_near [of a] assms by simp
  have "a * (1 / 2 ^ 53) \<le> a" using assms by (intro mult_left_le) simp_all
  then have small: "a / 2 ^ 53 \<le> a" by simp
  from e have "- (a / 2 ^ 53) \<le> fl a - a" "fl a - a \<le> a / 2 ^ 53"
    by (simp_all only: abs_le_iff minus_diff_eq) linarith+
  with small show "0 \<le> fl a" "fl a \<le> 2 * a" by linarith+
qed

lemma percent_value_near:
  fixes s n :: nat
  assumes "0 < n" and "s \<le> n"
  defines "a \<equiv> (of_nat s / of_nat n :: rat)"
  shows "0 \<le> fl (fl a * 100)" and "\<bar>fl (fl a * 100) - 100 * a\<bar> \<le> 300 / 2 ^ 53"
proof -
  have a: "0 \<le> a" "a \<le> 1" using assms(1,2) by (simp_all add: a_def)
  note y0 = fl_nonneg_near [OF a(1)]
  from y0(1) have "0 \<le> fl a * 100" by simp
  note y = fl_nonneg_near [OF this]
  show "0 \<le> fl (fl a * 100)" by (rule y(1))
  have "fl (fl a * 100) - 100 * a = (fl (fl a * 100) - fl a * 100) + 100 * (fl a - a)"
    by (simp add: algebra_simps)
  also have "\<bar>\<dots>\<bar> \<le> \<bar>fl (fl a * 100) - fl a * 100\<bar> + \<bar>100 * (fl a - a)\<bar>"
    by (rule abs_triangle_ineq)
  also have "\<bar>100 * (fl a - a)\<bar> = 100 * \<bar>fl a - a\<bar>"
    by (simp only: abs_mult abs_numeral)
  finally have "\<bar>fl (fl a * 100) - 100 * a\<bar> \<le>
      \<bar>fl (fl a * 100) - fl a * 100\<bar> + 100 * \<bar>fl a - a\<bar>" .
  also have "\<dots> \<le> fl a * 100 / 2 ^ 53 + 100 * (a / 2 ^ 53)"
    using y0(3) y(3) by (intro add_mono mult_left_mono) simp_all
  also have "\<dots> \<le> (2 * a) * 100 / 2 ^ 53 + 100 * (a / 2 ^ 53)"
  proof -
    from y0(2) have "fl a * 100 \<le> (2 * a) * 100" by simp
    then have "fl a * 100 / 2 ^ 53 \<le> (2 * a) * 100 / 2 ^ 53"
      by (rule divide_right_mono) simp
    then show ?thesis by (rule add_right_mono)
  qed
  also have "\<dots> = 300 * a / 2 ^ 53" by simp
  also have "\<dots> \<le> 300 * 1 / 2 ^ 53"
  proof -
    from a(2) have "300 * a \<le> 300 * 1" by simp
    then show ?thesis by (rule divide_right_mono) simp
  qed
  finally show "\<bar>fl (fl a * 100) - 100 * a\<bar> \<le> 300 / 2 ^ 53" by simp
qed

lemma nearest_tenth:
  fixes s n :: nat and y :: rat
  assumes n: "0 < n" "n < 2 ^ 40"
    and near: "\<bar>y - 100 * (of_nat s / of_nat n)\<bar> \<le> 300 / 2 ^ 53"
  shows "\<bar>of_int \<lfloor>y * 10 + 1 / 2\<rfloor> / 10 - 100 * of_nat s / of_nat n\<bar> \<le> (1 / 20 :: rat)"
proof -
  define K where "K = \<lfloor>y * 10 + 1 / 2\<rfloor>"
  define t :: rat where "t = 1000 * (of_nat s / of_nat n)"
  define E where "E = K * int n - 1000 * int s"
  define \<delta> :: rat where "\<delta> = 3000 / 9007199254740992"
  have npos: "(0::rat) < of_nat n" using n(1) by simp
  have E: "of_int E = (of_int K - t) * (of_nat n :: rat)"
    using npos by (simp add: E_def t_def field_simps)
  have K: "of_int K \<le> y * 10 + 1 / 2" "y * 10 + 1 / 2 < of_int K + 1"
    unfolding K_def by linarith+
  have "y * 10 - t = 10 * (y - 100 * (of_nat s / of_nat n))"
    by (simp add: t_def algebra_simps)
  then have "\<bar>y * 10 - t\<bar> = 10 * \<bar>y - 100 * (of_nat s / of_nat n)\<bar>"
    by (simp only: abs_mult abs_numeral)
  also have "\<dots> \<le> 10 * (300 / 2 ^ 53)"
    using near by (intro mult_left_mono) simp_all
  also have "\<dots> = \<delta>" by (simp add: \<delta>_def)
  finally have yt: "\<bar>y * 10 - t\<bar> \<le> \<delta>" .
  have Kt: "\<bar>of_int K - t\<bar> \<le> 1 / 2 + \<delta>"
    using K yt by (simp only: abs_le_iff) linarith
  have "\<bar>of_int E :: rat\<bar> = \<bar>of_int K - t\<bar> * of_nat n"
    unfolding E using npos by (simp add: abs_mult)
  also have "\<dots> \<le> (1 / 2 + \<delta>) * of_nat n"
    using Kt npos by (intro mult_right_mono) simp_all
  finally have E_le: "\<bar>of_int E :: rat\<bar> \<le> of_nat n / 2 + \<delta> * of_nat n"
    by (simp add: algebra_simps)
  have "(of_nat n :: rat) < of_nat (2 ^ 40)"
    using n(2) by (simp only: of_nat_less_iff)
  then have "(of_nat n :: rat) < 1099511627776" by simp
  then have "\<delta> * of_nat n < \<delta> * 1099511627776"
    by (intro mult_strict_left_mono) (simp_all add: \<delta>_def)
  also have "\<dots> < 1 / 2" by (simp add: \<delta>_def)
  finally have "\<delta> * of_nat n < 1 / 2" .
  with E_le have "2 * \<bar>of_int E :: rat\<bar> < of_nat n + 1" by linarith
  then have "(of_int (2 * \<bar>E\<bar>) :: rat) < of_int (int n + 1)" by simp
  then have "2 * \<bar>E\<bar> < int n + 1" by (simp only: of_int_less_iff)
  then have "2 * \<bar>E\<bar> \<le> int n" by simp
  then have "(of_int (2 * \<bar>E\<bar>) :: rat) \<le> of_int (int n)" by (simp only: of_int_le_iff)
  then have "\<bar>of_int K - t\<bar> * of_nat n \<le> (1 / 2) * (of_nat n :: rat)"
    unfolding E [symmetric] abs_mult [symmetric] using npos by (simp add: E abs_mult)
  then have half: "\<bar>of_int K - t\<bar> \<le> 1 / 2"
    using npos by (simp only: mult_le_cancel_right)
  have "of_int K / 10 - 100 * of_nat s / of_nat n = (of_int K - t) / 10"
    by (simp add: t_def diff_divide_distrib)
  then have "\<bar>of_int K / 10 - 100 * of_nat s / of_nat n\<bar> = \<bar>of_int K - t\<bar> / 10"
    by (simp only: abs_divide abs_numeral)
  also have "\<dots> \<le> (1 / 2) / 10"
    using half by (rule divide_right_mono) simp
  finally show ?thesis unfolding K_def by simp
qed

lemma percentText_zero_total:
  "percentText sc 0 = Inr (if sc = 0 then ''NaN'' else ''Infinity'')"
  by (simp add: percentText_def js_div_def js_mul_def toFixed_def)

lemma percentText_positive_total:
  assumes "0 < n" and "s \<le> n" and "n < 2 ^ 40"
  shows "\<exists>N. percentText s n = Inr (show_nat (N div 10) @ ''.'' @ show_nat (N mod 10)) \<and>
             \<bar>of_nat N / 10 - 100 * of_nat s / of_nat n\<bar> \<le> (1 / 20 :: rat)"
proof -
  define y where "y = fl (fl (of_nat s / of_nat n) * 100)"
  define N where "N = nat \<lfloor>y * 10 + 1 / 2\<rfloor>"
  from percent_value_near [OF assms(1,2)]
  have y: "0 \<le> y" "\<bar>y - 100 * (of_nat s / of_nat n)\<bar> \<le> 300 / 2 ^ 53"
    by (simp_all only: y_def)
  have "percentText s n = Inr (fixed_digits y 1)"
    using assms(1) y(1) by (simp add: percentText_def js_div_def js_mul_def toFixed_def y_def)
  then have shown: "percentText s n = Inr (show_nat (N div 10) @ ''.'' @ show_nat (N mod 10))"
    by (simp only: fixed_digits_one N_def)
  from y(1) have "0 \<le> \<lfloor>y * 10 + 1 / 2\<rfloor>" by simp
  then have "(of_nat N :: rat) = of_int \<lfloor>y * 10 + 1 / 2\<rfloor>"
    by (simp add: N_def)
  with nearest_tenth [OF assms(1,3) y(2)]
  have "\<bar>of_nat N / 10 - 100 * of_nat s / of_nat n\<bar> \<le> (1 / 20 :: rat)"
    by (simp only:)
  with shown show ?thesis by blast
qed

lemma elapsedSeconds_exact:
  assumes "\<bar>now - (case t0 of None \<Rightarrow> 0 | Some t \<Rightarrow> t)\<bar> < 2 ^ 53"
  shows "elapsedSeconds t0 now = (now - (case t0 of None \<Rightarrow> 0 | Some t \<Rightarrow> t) + 500) div 1000"
  unfolding elapsedSeconds_def by (rule math_round_fl_div_1000 [OF assms])

lemma finishQuiz_fields:
  assumes "percentText (score st) (length (questions st)) = Inr pct"
  shows "finishQuiz st now post = Normal (state_of (finishQuiz st now post))"
    and "finalScore (state_of (finishQuiz st now post)) =
           username st @ '', your final score: '' @ show_nat (score st) @ ''/'' @
           show_nat (length (questions st)) @ '' ('' @ pct @ ''%)''"
    and "timeTaken (state_of (finishQuiz st now post)) =
           ''Time taken: '' @ show_int (elapsedSeconds (startTime st) now) @ '' seconds.''"
    and "areas (state_of (finishQuiz st now post)) =
           (if filter (\<lambda>b. \<not> correct b) (breakdown st) = [] then PerfectScore
            else QuestionsToReview (filter (\<lambda>b. \<not> correct b) (breakdown st)))"
    and "posted (state_of (finishQuiz st now post)) = posted st @
           [\<lparr>p_username = username st, p_correct = score st,
             p_total = length (questions st),
             p_timeTaken = elapsedSeconds (startTime st) now,
             p_breakdown = breakdown st\<rparr>]"
  using assms by (simp_all add: finishQuiz_def Let_def split: option.split)

lemma run_score_le: "score (run evs) \<le> length (questions (run evs))"
proof -
  have "score (run evs) \<le> length (breakdown (run evs))"
    by (simp add: run_score)
  also have "\<dots> \<le> length (take (Suc (currentIndex (run evs))) (questions (run evs)))"
    using run_answered_once [of evs] list_emb_length
    by (fastforce simp add: answered_once_def)
  finally show ?thesis by simp
qed

text \<open>\<open>handleAnswer\<close> leaves the screens as they are and writes feedback.\<close>

lemma handleAnswer_Active:
  assumes "lookup (questions st) (currentIndex st) = Some q" and "phase_of st = Active"
  shows "phase_of (state_of (handleAnswer st b l)) = Answered"
proof -
  from assms(2) have "resultHidden st" "\<not> quizHidden st"
    by (simp_all add: phase_of_def split: if_splits)
  with handleAnswer_defined(4) [OF assms(1), of b l] show ?thesis
    by (simp add: phase_of_def handleAnswer_page)
qed

section \<open>The claims\<close>

text \<open>
  C1 as stated fails: on the first question of the sample session (options a and b),
  \<open>handleAnswer\<close> called with the label z, which no option has, appends a record and
  the session goes from Active to Answered.
\<close>

theorem unknown_label_counterexample:
  "phase_of (run sample_start) = Active \<and>
   ''z'' \<notin> set (map label (q_options (questions (run sample_start) ! currentIndex (run sample_start)))) \<and>
   length (breakdown (state_of (handleAnswer (run sample_start) 0 ''z''))) =
     Suc (length (breakdown (run sample_start))) \<and>
   phase_of (state_of (handleAnswer (run sample_start) 0 ''z'')) = Answered"
  by code_simp

text \<open>
  C1, amended. \<open>handleAnswer\<close> does not compare the label with the options: whenever the
  current question exists it appends one record for any label and writes feedback, and
  a session that was Active is Answered afterwards. A label that is no option of the
  current question cannot come from the page: in every reachable state, a click that
  appends a record passes the label of the clicked button, that label is an option
  label of the current question, and the click takes an Active session to Answered.
\<close>

theorem handleAnswer_any_label:
  "(lookup (questions st) (currentIndex st) = Some q \<longrightarrow>
      breakdown (state_of (handleAnswer st b l)) = breakdown st @
        [\<lparr>questionId = q_id q, question = q_question q, selectedLabel = l,
          correctLabel = q_correct_label q, correct = (l = q_correct_label q),
          explanation = q_explanation q\<rparr>] \<and>
      feedback (state_of (handleAnswer st b l)) \<noteq> NoFeedback \<and>
      (phase_of st = Active \<longrightarrow> phase_of (state_of (handleAnswer st b l)) = Answered)) \<and>
   (breakdown (step (run evs) (OptionClick i)) \<noteq> breakdown (run evs) \<longrightarrow>
      (\<exists>q'. lookup (questions (run evs)) (currentIndex (run evs)) = Some q' \<and>
         breakdown (step (run evs) (OptionClick i)) = breakdown (run evs) @
           [\<lparr>questionId = q_id q', question = q_question q',
             selectedLabel = dataset_label (buttons (run evs) ! i),
             correctLabel = q_correct_label q',
             correct = (dataset_label (buttons (run evs) ! i) = q_correct_label q'),
             explanation = q_explanation q'\<rparr>] \<and>
         dataset_label (buttons (run evs) ! i) \<in> set (map label (q_options q'))) \<and>
      (phase_of (run evs) = Active \<longrightarrow>
         phase_of (step (run evs) (OptionClick i)) = Answered))"
proof (intro conjI impI)
  assume "lookup (questions st) (currentIndex st) = Some q"
  then show "breakdown (state_of (handleAnswer st b l)) = breakdown st @
        [\<lparr>questionId = q_id q, question = q_question q, selectedLabel = l,
          correctLabel = q_correct_label q, correct = (l = q_correct_label q),
          explanation = q_explanation q\<rparr>]"
    and "feedback (state_of (handleAnswer st b l)) \<noteq> NoFeedback"
    by (simp_all add: handleAnswer_defined)
next
  assume "lookup (questions st) (currentIndex st) = Some q" and "phase_of st = Active"
  then show "phase_of (state_of (handleAnswer st b l)) = Answered"
    by (rule handleAnswer_Active)
next
  let ?st = "run evs"
  assume grew: "breakdown (step ?st (OptionClick i)) \<noteq> breakdown ?st"
    and active: "phase_of ?st = Active"
  show "phase_of (step ?st (OptionClick i)) = Answered"
  proof (cases rule: option_click_cases [of ?st i])
    case ignored
    with grew show ?thesis by simp
  next
    case undefined
    with grew show ?thesis by simp
  next
    case (answered q')
    from handleAnswer_Active [OF answered(3) active] answered(4)
    show ?thesis by simp
  qed
next
  let ?st = "run evs"
  assume grew: "breakdown (step ?st (OptionClick i)) \<noteq> breakdown ?st"
  show "\<exists>q'. lookup (questions ?st) (currentIndex ?st) = Some q' \<and>
         breakdown (step ?st (OptionClick i)) = breakdown ?st @
           [\<lparr>questionId = q_id q', question = q_question q',
             selectedLabel = dataset_label (buttons ?st ! i),
             correctLabel = q_correct_label q',
             correct = (dataset_label (buttons ?st ! i) = q_correct_label q'),
             explanation = q_explanation q'\<rparr>] \<and>
         dataset_label (buttons ?st ! i) \<in> set (map label (q_options q'))"
  proof (cases rule: option_click_cases [of ?st i])
    case ignored
    with grew show ?thesis by simp
  next
    case undefined
    with grew show ?thesis by simp
  next
    case (answered q')
    from answered(3) have cur: "currentIndex ?st < length (questions ?st)"
      and q': "questions ?st ! currentIndex ?st = q'"
      by (simp_all add: lookup_Some_iff)
    then have "questions ?st \<noteq> []" by auto
    with run_buttons_inv [of evs] q'
    have "map dataset_label (buttons ?st) = map label (q_options q')"
      by (simp add: buttons_inv_def)
    then have "dataset_label (buttons ?st ! i) \<in> set (map label (q_options q'))"
      using answered(1) by (metis length_map nth_map nth_mem)
    then show ?thesis using answered(3,4)
      by (simp add: handleAnswer_defined)
  qed
qed

theorem handleAnswer_any_label_witness:
  "lookup (questions (run sample_start)) (currentIndex (run sample_start)) = Some sample_q1 \<and>
   phase_of (run sample_start) = Active \<and>
   breakdown (state_of (handleAnswer (run sample_start) 0 ''z'')) =
     [\<lparr>questionId = 1, question = ''First?'', selectedLabel = ''z'', correctLabel = ''a'',
       correct = False, explanation = ''one''\<rparr>] \<and>
   phase_of (state_of (handleAnswer (run sample_start) 0 ''z'')) = Answered \<and>
   breakdown (step (run sample_start) (OptionClick 1)) \<noteq> breakdown (run sample_start) \<and>
   dataset_label (buttons (run sample_start) ! 1) \<in> set (map label (q_options sample_q1)) \<and>
   phase_of (step (run sample_start) (OptionClick 1)) = Answered"
proof -
  have a: "lookup (questions (run sample_start)) (currentIndex (run sample_start)) = Some sample_q1"
    by code_simp
  have b: "breakdown (step (run sample_start) (OptionClick 1)) \<noteq> breakdown (run sample_start)"
    by code_simp
  have c: "breakdown (run sample_start) = []" by code_simp
  have d: "q_id sample_q1 = 1" "q_question sample_q1 = ''First?''"
    "q_correct_label sample_q1 = ''a''" "q_explanation sample_q1 = ''one''"
    by (simp_all add: sample_q1_def)
  have e: "phase_of (run sample_start) = Active" by code_simp
  from handleAnswer_any_label [of "run sample_start" sample_q1 0 "''z''" sample_start 1] a b c d e
  show ?thesis by auto
qed

text \<open>
  C2. In every state the page can reach, \<open>score\<close> is the number of records of
  \<open>breakdown\<close> with \<open>correct = true\<close>; and it still is after \<open>handleAnswer\<close> has
  run there, whatever button and label it is given.
\<close>

theorem score_counts_correct_answers:
  "score (run evs) = length (filter correct (breakdown (run evs))) \<and>
   score (state_of (handleAnswer (run evs) b l)) =
     length (filter correct (breakdown (state_of (handleAnswer (run evs) b l))))"
proof
  show inv: "score (run evs) = length (filter correct (breakdown (run evs)))"
    by (rule run_score)
  show "score (state_of (handleAnswer (run evs) b l)) =
     length (filter correct (breakdown (state_of (handleAnswer (run evs) b l))))"
  proof (cases "lookup (questions (run evs)) (currentIndex (run evs))")
    case None
    then show ?thesis using inv by (simp add: handleAnswer_undefined)
  next
    case (Some q)
    then show ?thesis using inv by (simp add: handleAnswer_defined)
  qed
qed

theorem score_counts_correct_answers_witness:
  "score (run (sample_start @ [OptionClick 0])) = 1 \<and>
   length (filter correct (breakdown (run (sample_start @ [OptionClick 0])))) = 1"
proof -
  have a: "score (run (sample_start @ [OptionClick 0])) = 1"
    by code_simp
  from score_counts_correct_answers [of "sample_start @ [OptionClick 0]" 0 "''a''"]
  have "score (run (sample_start @ [OptionClick 0])) =
      length (filter correct (breakdown (run (sample_start @ [OptionClick 0]))))"
    by (rule conjunct1)
  with a show ?thesis by simp
qed

text \<open>
  C3. When the request of a start fails, or its response has a status other than
  \<open>"ok"\<close>, one error is reported by \<open>alert\<close>, the session is in the phase it was in
  (Idle stays Idle), and \<open>questions\<close>, \<open>currentIndex\<close>, \<open>score\<close>, \<open>breakdown\<close> and
  \<open>startTime\<close> are unchanged. A later start whose request succeeds begins a fresh
  attempt: the loaded questions, index 0, score 0, no records, a new start time, and the
  session Active if it was Idle.
\<close>

theorem load_failure_keeps_session:
  assumes "case res of Rejected err \<Rightarrow> True | Resolved status qs message \<Rightarrow> status \<noteq> ''ok''"
    and "trim v \<noteq> []"
  shows "(\<exists>err. alerts (start st v res now) = alerts st @ [err]) \<and>
         phase_of (start st v res now) = phase_of st \<and>
         questions (start st v res now) = questions st \<and>
         currentIndex (start st v res now) = currentIndex st \<and>
         score (start st v res now) = score st \<and>
         breakdown (start st v res now) = breakdown st \<and>
         startTime (start st v res now) = startTime st \<and>
         (trim v' \<noteq> [] \<longrightarrow>
            questions (start (start st v res now) v' (Resolved ''ok'' qs' m') now') = qs' \<and>
            currentIndex (start (start st v res now) v' (Resolved ''ok'' qs' m') now') = 0 \<and>
            score (start (start st v res now) v' (Resolved ''ok'' qs' m') now') = 0 \<and>
            breakdown (start (start st v res now) v' (Resolved ''ok'' qs' m') now') = [] \<and>
            startTime (start (start st v res now) v' (Resolved ''ok'' qs' m') now') = Some now' \<and>
            username (start (start st v res now) v' (Resolved ''ok'' qs' m') now') = trim v' \<and>
            (phase_of st = Idle \<longrightarrow>
               phase_of (start (start st v res now) v' (Resolved ''ok'' qs' m') now') = Active))"
proof -
  from start_failed [OF assms, of st now] obtain err where
    eq: "start st v res now = st\<lparr>username := trim v, introError := [], alerts := alerts st @ [err]\<rparr>"
    ..
  have "alerts (start st v res now) = alerts st @ [err]" by (simp add: eq)
  then have "\<exists>err. alerts (start st v res now) = alerts st @ [err]" by (rule exI)
  moreover have "phase_of (start st v res now) = phase_of st"
    by (simp add: eq phase_of_def)
  moreover have "questions (start st v res now) = questions st"
    "currentIndex (start st v res now) = currentIndex st"
    "score (start st v res now) = score st"
    "breakdown (start st v res now) = breakdown st"
    "startTime (start st v res now) = startTime st"
    by (simp_all add: eq)
  moreover have "phase_of (start (start st v res now) v' (Resolved ''ok'' qs' m') now') = Active"
    if "trim v' \<noteq> []" "phase_of st = Idle"
  proof -
    from that(2) have "resultHidden st" by (simp add: phase_of_def split: if_splits)
    then show ?thesis using that(1) by (simp add: phase_of_def start_ok eq)
  qed
  ultimately show ?thesis by (simp add: start_ok)
qed

theorem load_failure_keeps_session_witness:
  "trim ''ann'' \<noteq> [] \<and> phase_of init_state = Idle \<and>
   phase_of (start init_state ''ann'' (Resolved ''error'' [] (Some ''no questions'')) 5) = Idle \<and>
   questions (start (start init_state ''ann'' (Resolved ''error'' [] (Some ''no questions'')) 5)
                ''ann'' (Resolved ''ok'' [sample_q1, sample_q2] None) 9) = [sample_q1, sample_q2] \<and>
   phase_of (start (start init_state ''ann'' (Resolved ''error'' [] (Some ''no questions'')) 5)
                ''ann'' (Resolved ''ok'' [sample_q1, sample_q2] None) 9) = Active"
proof -
  have a: "trim ''ann'' \<noteq> []" by code_simp
  have b: "case Resolved ''error'' [] (Some ''no questions'') of
             Rejected err \<Rightarrow> True | Resolved status qs message \<Rightarrow> status \<noteq> ''ok''"
    by simp
  have c: "phase_of init_state = Idle" by code_simp
  from load_failure_keeps_session [OF b a, of init_state 5 "''ann''" "[sample_q1, sample_q2]" None 9]
    a c
  show ?thesis by simp
qed

text \<open>
  C4 as stated fails: after a start as alice whose request failed, the session is Idle
  with \<open>username = "alice"\<close>; a click on start with a blank name field then stores the
  empty string in \<open>username\<close>.
\<close>

theorem empty_username_counterexample:
  "username (start init_state ''alice'' (Rejected (Error ''Failed to fetch'')) 0) = ''alice'' \<and>
   phase_of (start init_state ''alice'' (Rejected (Error ''Failed to fetch'')) 0) = Idle \<and>
   trim ''  '' = [] \<and>
   username (step (start init_state ''alice'' (Rejected (Error ''Failed to fetch'')) 0)
               (StartClick ''  '')) \<noteq> ''alice''"
  by code_simp

text \<open>
  C4, amended. A click on start with a name that is empty after trimming shows the
  validation message and issues no request; it changes nothing of the state except that
  \<open>username\<close> now holds the trimmed, empty input.
\<close>

theorem empty_username_blocks_start:
  "trim v = [] \<Longrightarrow>
   step st (StartClick v) =
     st\<lparr>username := [], introError := ''Please enter your name to start.''\<rparr>"
  by (simp add: start_btn_click_def Let_def)

theorem empty_username_blocks_start_witness:
  "trim ''  '' = [] \<and>
   step (run sample_start) (StartClick ''  '') =
     (run sample_start)\<lparr>username := [], introError := ''Please enter your name to start.''\<rparr>"
proof -
  have a: "trim ''  '' = []" by code_simp
  from empty_username_blocks_start [OF a, of "run sample_start"] a show ?thesis by simp
qed

text \<open>
  C5. The claim: a start that loads an empty question list takes the session straight
  to Finished with total 0, showing no question and without a crash. The script does
  not do that. At the response \<open>{status: "ok", questions: []}\<close> it resets the session
  and shows the quiz screen, then \<open>showQuestion\<close> reads \<open>q.question\<close> of the missing
  first question and throws a TypeError; the catch clause of \<open>loadQuestions\<close> reports
  it by \<open>alert\<close> as an error of loading, the session is not Finished and nothing is
  posted. The other caller of \<open>showQuestion\<close>, the next button, tests the index first:
  a click on it in this state finishes the session with total 0.
\<close>

theorem start_with_no_questions_not_finished:
  "questions (start init_state ''ann'' (Resolved ''ok'' [] None) 1000) = [] \<and>
   quizHidden (start init_state ''ann'' (Resolved ''ok'' [] None) 1000) = False \<and>
   phase_of (start init_state ''ann'' (Resolved ''ok'' [] None) 1000) \<noteq> Finished \<and>
   alerts (start init_state ''ann'' (Resolved ''ok'' [] None) 1000) = [TypeError] \<and>
   posted (start init_state ''ann'' (Resolved ''ok'' [] None) 1000) = [] \<and>
   phase_of (step (start init_state ''ann'' (Resolved ''ok'' [] None) 1000)
               (NextClick 2000 None)) = Finished \<and>
   map p_total (posted (step (start init_state ''ann'' (Resolved ''ok'' [] None) 1000)
                          (NextClick 2000 None))) = [0]"
  by code_simp

text \<open>
  C6. With no questions, \<open>finishQuiz\<close> does not throw: the division by the length 0
  gives NaN (Infinity for a positive score), \<open>toFixed(1)\<close> prints its name, and the
  result screen is shown.
\<close>

theorem finishQuiz_no_questions:
  assumes "questions st = []"
  shows "\<not> threw (finishQuiz st now post) \<and>
         phase_of (state_of (finishQuiz st now post)) = Finished \<and>
         finalScore (state_of (finishQuiz st now post)) =
           username st @ '', your final score: '' @ show_nat (score st) @ ''/0 ('' @
           (if score st = 0 then ''NaN'' else ''Infinity'') @ ''%)''"
proof -
  have pct: "percentText (score st) (length (questions st)) =
      Inr (if score st = 0 then ''NaN'' else ''Infinity'')"
    using assms by (simp only: list.size percentText_zero_total)
  have "show_nat (length (questions st)) = ''0''"
    using assms by (simp add: show_nat_digit digit_char_def)
  with finishQuiz_fields(2) [OF pct, of now post] finishQuiz_returns [of st now post]
  show ?thesis by (simp add: phase_of_def finishQuiz_page)
qed

theorem finishQuiz_no_questions_witness:
  "questions (start init_state ''ann'' (Resolved ''ok'' [] None) 1000) = [] \<and>
   \<not> threw (finishQuiz (start init_state ''ann'' (Resolved ''ok'' [] None) 1000) 2000 None) \<and>
   finalScore (state_of (finishQuiz (start init_state ''ann'' (Resolved ''ok'' [] None) 1000) 2000 None)) =
     ''ann, your final score: 0/0 (NaN%)''"
proof -
  have a: "questions (start init_state ''ann'' (Resolved ''ok'' [] None) 1000) = []"
    by code_simp
  have b: "score (start init_state ''ann'' (Resolved ''ok'' [] None) 1000) = 0"
    "username (start init_state ''ann'' (Resolved ''ok'' [] None) 1000) = ''ann''"
    by code_simp+
  from finishQuiz_no_questions [OF a, of 2000 None] a b show ?thesis
    by (simp add: show_nat_digit digit_char_def)
qed

text \<open>
  C7. In a reachable state that is Answered, a click on the next button adds one to
  \<open>currentIndex\<close> and makes the session Active when \<open>currentIndex\<close> is not the last
  index (and posts nothing); otherwise it runs \<open>finishQuiz\<close>, which posts the score, and
  the session is Finished.
\<close>

theorem advance_from_Answered:
  assumes "phase_of (run evs) = Answered"
  shows "if Suc (currentIndex (run evs)) \<noteq> length (questions (run evs))
         then currentIndex (step (run evs) (NextClick now post)) = Suc (currentIndex (run evs)) \<and>
              phase_of (step (run evs) (NextClick now post)) = Active \<and>
              posted (step (run evs) (NextClick now post)) = posted (run evs)
         else next_btn_click (run evs) now post = finishQuiz (run evs) now post \<and>
              phase_of (step (run evs) (NextClick now post)) = Finished \<and>
              length (posted (step (run evs) (NextClick now post))) = Suc (length (posted (run evs)))"
proof -
  let ?st = "run evs"
  from assms have page: "resultHidden ?st" "\<not> quizHidden ?st" "feedback ?st \<noteq> NoFeedback"
    by (simp_all add: phase_of_def split: if_splits)
  with run_feedback_inv [of evs] have cur: "currentIndex ?st < length (questions ?st)"
    by (simp add: feedback_inv_def)
  show ?thesis
  proof (cases rule: next_btn_click_cases [of ?st now post])
    case advance
    then show ?thesis using page
      by (simp add: showQuestion_globals showQuestion_page phase_of_def)
  next
    case finish
    obtain p where p: "percentText (score ?st) (length (questions ?st)) = Inr p"
      using percentText_returns by blast
    have "length (posted (state_of (finishQuiz ?st now post))) = Suc (length (posted ?st))"
      using p by (simp add: finishQuiz_def Let_def split: option.split)
    moreover from finish cur have "Suc (currentIndex ?st) = length (questions ?st)" by simp
    ultimately show ?thesis using finish
      by (simp add: finishQuiz_page phase_of_def)
  qed
qed

theorem advance_from_Answered_witness:
  "phase_of (run (sample_start @ [OptionClick 0])) = Answered \<and>
   Suc (currentIndex (run (sample_start @ [OptionClick 0]))) \<noteq>
     length (questions (run (sample_start @ [OptionClick 0]))) \<and>
   currentIndex (step (run (sample_start @ [OptionClick 0])) (NextClick 3000 None)) = 1 \<and>
   phase_of (step (run (sample_start @ [OptionClick 0])) (NextClick 3000 None)) = Active"
proof -
  have a: "phase_of (run (sample_start @ [OptionClick 0])) = Answered" by code_simp
  have b: "currentIndex (run (sample_start @ [OptionClick 0])) = 0"
    "length (questions (run (sample_start @ [OptionClick 0]))) = 2"
    by code_simp+
  from advance_from_Answered [OF a, of 3000 None] a b show ?thesis by simp
qed

text \<open>
  C8. For every reachable state (with fewer than \<open>2^40\<close> questions and a time difference
  below \<open>2^53\<close> ms), \<open>finishQuiz\<close> returns and shows: the elapsed time
  \<open>now - startTime\<close> rounded to whole seconds, a half going up; the percentage as a
  number with one decimal that is within 0.05 of \<open>score / total * 100\<close> (NaN when
  there is no question); and as the questions to review exactly the records with
  \<open>correct = false\<close>, in their order.
\<close>

theorem finishQuiz_summary:
  assumes "length (questions (run evs)) < 2 ^ 40"
    and "\<bar>now - (case startTime (run evs) of None \<Rightarrow> 0 | Some t \<Rightarrow> t)\<bar> < 2 ^ 53"
  shows "\<not> threw (finishQuiz (run evs) now post) \<and>
         timeTaken (state_of (finishQuiz (run evs) now post)) =
           ''Time taken: '' @
           show_int ((now - (case startTime (run evs) of None \<Rightarrow> 0 | Some t \<Rightarrow> t) + 500) div 1000) @
           '' seconds.'' \<and>
         (\<exists>pct. finalScore (state_of (finishQuiz (run evs) now post)) =
                  username (run evs) @ '', your final score: '' @ show_nat (score (run evs)) @
                  ''/'' @ show_nat (length (questions (run evs))) @ '' ('' @ pct @ ''%)'' \<and>
                (if questions (run evs) = [] then pct = ''NaN''
                 else \<exists>N. pct = show_nat (N div 10) @ ''.'' @ show_nat (N mod 10) \<and>
                          \<bar>of_nat N / 10 -
                             100 * of_nat (score (run evs)) / of_nat (length (questions (run evs)))\<bar>
                          \<le> (1 / 20 :: rat))) \<and>
         areas (state_of (finishQuiz (run evs) now post)) =
           (if filter (\<lambda>b. \<not> correct b) (breakdown (run evs)) = [] then PerfectScore
            else QuestionsToReview (filter (\<lambda>b. \<not> correct b) (breakdown (run evs))))"
proof -
  let ?st = "run evs"
  obtain pct where pct: "percentText (score ?st) (length (questions ?st)) = Inr pct"
    using percentText_returns by blast
  have "if questions ?st = [] then pct = ''NaN''
        else \<exists>N. pct = show_nat (N div 10) @ ''.'' @ show_nat (N mod 10) \<and>
                 \<bar>of_nat N / 10 - 100 * of_nat (score ?st) / of_nat (length (questions ?st))\<bar>
                 \<le> (1 / 20 :: rat)"
  proof (cases "questions ?st = []")
    case True
    with run_score_le [of evs] have "score ?st = 0" by simp
    with True pct show ?thesis by (simp add: percentText_zero_total)
  next
    case False
    then have "0 < length (questions ?st)" by simp
    from percentText_positive_total [OF this run_score_le assms(1)] pct False
    show ?thesis by simp
  qed
  with finishQuiz_fields(2) [OF pct, of now post]
  have "\<exists>pct. finalScore (state_of (finishQuiz ?st now post)) =
                  username ?st @ '', your final score: '' @ show_nat (score ?st) @
                  ''/'' @ show_nat (length (questions ?st)) @ '' ('' @ pct @ ''%)'' \<and>
                (if questions ?st = [] then pct = ''NaN''
                 else \<exists>N. pct = show_nat (N div 10) @ ''.'' @ show_nat (N mod 10) \<and>
                          \<bar>of_nat N / 10 -
                             100 * of_nat (score ?st) / of_nat (length (questions ?st))\<bar>
                          \<le> (1 / 20 :: rat))"
    by blast
  moreover have "timeTaken (state_of (finishQuiz ?st now post)) =
           ''Time taken: '' @
           show_int ((now - (case startTime ?st of None \<Rightarrow> 0 | Some t \<Rightarrow> t) + 500) div 1000) @
           '' seconds.''"
    by (simp only: finishQuiz_fields(3) [OF pct] elapsedSeconds_exact [OF assms(2)])
  ultimately show ?thesis
    using finishQuiz_returns [of ?st now post] finishQuiz_fields(4) [OF pct, of now post]
    by simp
qed

theorem finishQuiz_summary_witness:
  "length (questions (run sample_missed)) < 2 ^ 40 \<and>
   \<bar>4600 - (case startTime (run sample_missed) of None \<Rightarrow> 0 | Some t \<Rightarrow> t)\<bar> < 2 ^ 53 \<and>
   timeTaken (state_of (finishQuiz (run sample_missed) 4600 None)) = ''Time taken: 4 seconds.'' \<and>
   areas (state_of (finishQuiz (run sample_missed) 4600 None)) =
     QuestionsToReview
       [\<lparr>questionId = 1, question = ''First?'', selectedLabel = ''b'', correctLabel = ''a'',
         correct = False, explanation = ''one''\<rparr>,
        \<lparr>questionId = 2, question = ''Second?'', selectedLabel = ''a'', correctLabel = ''b'',
         correct = False, explanation = ''two''\<rparr>]"
proof -
  have a: "length (questions (run sample_missed)) = 2"
    "startTime (run sample_missed) = Some 1000"
    "filter (\<lambda>b. \<not> correct b) (breakdown (run sample_missed)) =
       [\<lparr>questionId = 1, question = ''First?'', selectedLabel = ''b'', correctLabel = ''a'',
         correct = False, explanation = ''one''\<rparr>,
        \<lparr>questionId = 2, question = ''Second?'', selectedLabel = ''a'', correctLabel = ''b'',
         correct = False, explanation = ''two''\<rparr>]"
    by code_simp+
  have b: "length (questions (run sample_missed)) < 2 ^ 40"
    "\<bar>4600 - (case startTime (run sample_missed) of None \<Rightarrow> 0 | Some t \<Rightarrow> t)\<bar> < 2 ^ 53"
    by (simp_all add: a)
  have c: "show_int 4 = ''4''"
    by (simp add: show_int_def show_nat_digit digit_char_def)
  from finishQuiz_summary [OF b, of None] a b c show ?thesis by simp
qed

text \<open>
  C9. In every reachable state the records of \<open>breakdown\<close> were made from the questions
  in their order, each question giving at most one record, so there are no more records
  than questions and, when the question ids are distinct, no id occurs in two records.
  After a click that appended a record, a click on any option button changes nothing.
\<close>

theorem one_record_per_question:
  "subseq (map record_key (breakdown (run evs))) (map question_key (questions (run evs))) \<and>
   length (breakdown (run evs)) \<le> length (questions (run evs)) \<and>
   (distinct (map q_id (questions (run evs))) \<longrightarrow>
      distinct (map questionId (breakdown (run evs)))) \<and>
   (breakdown (step (run evs) (OptionClick i)) \<noteq> breakdown (run evs) \<longrightarrow>
      step (step (run evs) (OptionClick i)) (OptionClick j) = step (run evs) (OptionClick i))"
proof -
  let ?st = "run evs"
  from run_answered_once [of evs]
  have "subseq (map record_key (breakdown ?st))
      (map question_key (take (Suc (currentIndex ?st)) (questions ?st)))"
    by (simp add: answered_once_def)
  from subseq_take_mono [OF this, of "max (Suc (currentIndex ?st)) (length (questions ?st))"]
  have emb: "subseq (map record_key (breakdown ?st)) (map question_key (questions ?st))"
    by simp
  from list_emb_length [OF emb]
  have len: "length (breakdown ?st) \<le> length (questions ?st)" by simp
  from subseq_map [OF emb, of fst]
  have "subseq (map questionId (breakdown ?st)) (map q_id (questions ?st))"
    by (simp add: record_key_def question_key_def comp_def)
  then have dist: "distinct (map questionId (breakdown ?st))"
    if "distinct (map q_id (questions ?st))"
    using that by (rule subseq_distinct)
  have again: "step (step ?st (OptionClick i)) (OptionClick j) = step ?st (OptionClick i)"
    if grew: "breakdown (step ?st (OptionClick i)) \<noteq> breakdown ?st"
  proof (cases rule: option_click_cases [of ?st i])
    case ignored
    with grew show ?thesis by simp
  next
    case undefined
    with grew show ?thesis by simp
  next
    case (answered q)
    let ?st' = "state_of (handleAnswer ?st i (dataset_label (buttons ?st ! i)))"
    from handleAnswer_defined(5) [OF answered(3), of i "dataset_label (buttons ?st ! i)"]
    have "j < length (buttons ?st') \<longrightarrow> disabled (buttons ?st' ! j)" by auto
    then have "option_click ?st' j = Normal ?st'"
      by (auto simp add: option_click_def)
    then show ?thesis using answered(4) by simp
  qed
  from emb len dist again show ?thesis by blast
qed

theorem one_record_per_question_witness:
  "distinct (map q_id (questions (run (sample_start @ [OptionClick 0])))) \<and>
   distinct (map questionId (breakdown (run (sample_start @ [OptionClick 0])))) \<and>
   breakdown (step (run sample_start) (OptionClick 0)) \<noteq> breakdown (run sample_start) \<and>
   step (step (run sample_start) (OptionClick 0)) (OptionClick 1) =
     step (run sample_start) (OptionClick 0)"
proof -
  have a: "distinct (map q_id (questions (run (sample_start @ [OptionClick 0]))))"
    by code_simp
  have b: "breakdown (step (run sample_start) (OptionClick 0)) \<noteq> breakdown (run sample_start)"
    by code_simp
  from one_record_per_question [of "sample_start @ [OptionClick 0]" 0 0] a
  have c: "distinct (map questionId (breakdown (run (sample_start @ [OptionClick 0]))))"
    by blast
  from one_record_per_question [of sample_start 0 1] b
  have d: "step (step (run sample_start) (OptionClick 0)) (OptionClick 1) =
     step (run sample_start) (OptionClick 0)"
    by blast
  from a b c d show ?thesis by blast
qed

text \<open>
  C10. \<open>handleAnswer\<close>, called on any state, leaves \<open>questions\<close>, \<open>currentIndex\<close>,
  \<open>startTime\<close> and \<open>username\<close> as they were. When the current question exists, it
  appends exactly one record to \<open>breakdown\<close> and adds one to \<open>score\<close> exactly when the
  selected label equals \<open>correct_label\<close>; when \<open>questions[currentIndex]\<close> is undefined,
  it throws a TypeError before it has changed anything.
\<close>

theorem handleAnswer_frame:
  "questions (state_of (handleAnswer st b l)) = questions st \<and>
   currentIndex (state_of (handleAnswer st b l)) = currentIndex st \<and>
   startTime (state_of (handleAnswer st b l)) = startTime st \<and>
   username (state_of (handleAnswer st b l)) = username st \<and>
   (case lookup (questions st) (currentIndex st) of
      Some q \<Rightarrow>
        \<not> threw (handleAnswer st b l) \<and>
        breakdown (state_of (handleAnswer st b l)) = breakdown st @
          [\<lparr>questionId = q_id q, question = q_question q, selectedLabel = l,
            correctLabel = q_correct_label q, correct = (l = q_correct_label q),
            explanation = q_explanation q\<rparr>] \<and>
        score (state_of (handleAnswer st b l)) =
          (if l = q_correct_label q then score st + 1 else score st)
    | None \<Rightarrow> handleAnswer st b l = Threw TypeError st)"
  by (simp add: handleAnswer_globals handleAnswer_defined handleAnswer_undefined
      split: option.split)

theorem handleAnswer_frame_witness:
  "lookup (questions (run sample_start)) (currentIndex (run sample_start)) = Some sample_q1 \<and>
   questions (state_of (handleAnswer (run sample_start) 1 ''b'')) = [sample_q1, sample_q2] \<and>
   length (breakdown (state_of (handleAnswer (run sample_start) 1 ''b''))) = 1 \<and>
   score (state_of (handleAnswer (run sample_start) 1 ''b'')) = 0"
proof -
  have a: "lookup (questions (run sample_start)) (currentIndex (run sample_start)) = Some sample_q1"
    by code_simp
  have b: "questions (run sample_start) = [sample_q1, sample_q2]"
    "breakdown (run sample_start) = []" "score (run sample_start) = 0"
    "''b'' \<noteq> q_correct_label sample_q1"
    by code_simp+
  from handleAnswer_frame [of "run sample_start" 1 "''b''"] a b show ?thesis
    by simp
qed

end
